theory Spec2Isabelle
  imports Complex_Main "HOL-Library.Multiset" "HOL-Library.Log_Nat"
begin

section \<open>JavaScript numbers\<close>

text \<open>
  A JavaScript \<^verbatim>\<open>number\<close> is an IEEE double. The model keeps the three special values
  that decide what the handlers store (the two infinities and NaN) and takes every
  finite value as a real. The two zeros are one (\<open>Num 0\<close>, read as \<open>+0\<close>; the only
  divisor of the program is the width of a bounding rectangle, which is never \<open>-0\<close>).

  The operations \<open>num_sub\<close>, \<open>num_div\<close> and \<open>num_mul\<close> give the exact result of finite
  operands, and the handlers below compute with them. What the machine computes is that
  result rounded to the nearest double, by \<open>fl\<close> (further down): \<open>double\<close> rounds the
  result of one operation, and \<open>dragPosition_double\<close> and \<open>normalizeAngle_double\<close> are
  the two expressions of the handlers with every result rounded. The property of the
  drag for all pointers is proved on the rounded expression; the lemmas
  \<open>dragPosition_double_80\<close> to \<open>dragPosition_double_collapsed\<close> show that the rounded
  and the exact expression agree on the inputs of the theorems about the handlers, and
  \<open>dragPosition_double_7\<close> and \<open>normalizeAngle_double_tiny\<close> show inputs where they differ.
\<close>

datatype number = Num real | PosInf | NegInf | NaN

definition inf_of_sign :: "real \<Rightarrow> number" where
  "inf_of_sign s = (if 0 < s then PosInf else if s < 0 then NegInf else NaN)"

fun num_sub :: "number \<Rightarrow> number \<Rightarrow> number" where
  "num_sub NaN b = NaN"
| "num_sub a NaN = NaN"
| "num_sub (Num a) (Num b) = Num (a - b)"
| "num_sub (Num a) PosInf = NegInf"
| "num_sub (Num a) NegInf = PosInf"
| "num_sub PosInf PosInf = NaN"
| "num_sub PosInf b = PosInf"
| "num_sub NegInf NegInf = NaN"
| "num_sub NegInf b = NegInf"

fun num_div :: "number \<Rightarrow> number \<Rightarrow> number" where
  "num_div NaN b = NaN"
| "num_div a NaN = NaN"
| "num_div (Num a) (Num b) = (if b = 0 then inf_of_sign a else Num (a / b))"
| "num_div (Num a) b = Num 0"
| "num_div PosInf (Num b) = (if b < 0 then NegInf else PosInf)"
| "num_div NegInf (Num b) = (if b < 0 then PosInf else NegInf)"
| "num_div a b = NaN"

fun num_mul :: "number \<Rightarrow> number \<Rightarrow> number" where
  "num_mul NaN b = NaN"
| "num_mul a NaN = NaN"
| "num_mul (Num a) (Num b) = Num (a * b)"
| "num_mul (Num a) PosInf = inf_of_sign a"
| "num_mul (Num a) NegInf = inf_of_sign (- a)"
| "num_mul PosInf (Num b) = inf_of_sign b"
| "num_mul NegInf (Num b) = inf_of_sign (- b)"
| "num_mul PosInf PosInf = PosInf"
| "num_mul PosInf NegInf = NegInf"
| "num_mul NegInf PosInf = NegInf"
| "num_mul NegInf NegInf = PosInf"

text \<open>The comparison \<^verbatim>\<open>a <= b\<close>: false as soon as one side is NaN.\<close>

fun num_le :: "number \<Rightarrow> number \<Rightarrow> bool" where
  "num_le NaN b = False"
| "num_le a NaN = False"
| "num_le NegInf b = True"
| "num_le a PosInf = True"
| "num_le (Num a) (Num b) = (a \<le> b)"
| "num_le a b = False"

definition Math_min :: "number \<Rightarrow> number \<Rightarrow> number" where
  "Math_min a b = (if a = NaN \<or> b = NaN then NaN else if num_le a b then a else b)"

definition Math_max :: "number \<Rightarrow> number \<Rightarrow> number" where
  "Math_max a b = (if a = NaN \<or> b = NaN then NaN else if num_le a b then b else a)"

subsection \<open>Rounding to doubles\<close>

text \<open>
  Round to nearest, ties to even, in binary64. \<open>binade x\<close> is the exponent \<open>e\<close> with
  \<open>2\<^sup>e \<le> \<bar>x\<bar> < 2\<^sup>e\<^sup>+\<^sup>1\<close>, not below \<open>-1022\<close> (below it the doubles are subnormal and
  equally spaced); the doubles of that binade are the multiples of \<open>ulp x = 2\<^sup>e\<^sup>-\<^sup>5\<^sup>2\<close>, and
  \<open>nearest x\<close> is the multiple nearest to \<open>x\<close>. A result of magnitude \<open>2\<^sup>1\<^sup>0\<^sup>2\<^sup>4\<close> is an
  infinity.
\<close>

definition round_even :: "real \<Rightarrow> int" where
  "round_even x =
     (let n = \<lfloor>x\<rfloor>; f = x - of_int n
      in if f < 1 / 2 then n else if 1 / 2 < f then n + 1 else if even n then n else n + 1)"

definition binade :: "real \<Rightarrow> int" where
  "binade x = max (bitlen \<lfloor>\<bar>x\<bar> * 2 ^ 1074\<rfloor> - 1075) (- 1022)"

definition ulp :: "real \<Rightarrow> real" where
  "ulp x = 2 powi (binade x - 52)"

definition nearest :: "real \<Rightarrow> real" where
  "nearest x = of_int (round_even (x / ulp x)) * ulp x"

definition fl :: "real \<Rightarrow> number" where
  "fl x = (if 2 ^ 1024 \<le> nearest x then PosInf
           else if nearest x \<le> - (2 ^ 1024) then NegInf
           else Num (nearest x))"

text \<open>The doubles, and the result of one operation as the machine delivers it.\<close>

definition is_double :: "real \<Rightarrow> bool" where
  "is_double r = (fl r = Num r)"

definition double :: "number \<Rightarrow> number" where
  "double v = (case v of Num r \<Rightarrow> fl r | PosInf \<Rightarrow> PosInf | NegInf \<Rightarrow> NegInf | NaN \<Rightarrow> NaN)"

text \<open>\<^verbatim>\<open>Math.round\<close> on a finite value: the nearest integer, halves towards \<open>+\<infinity>\<close>.\<close>

definition Math_round :: "real \<Rightarrow> int" where
  "Math_round x = \<lfloor>x + 1 / 2\<rfloor>"

text \<open>The remainder \<^verbatim>\<open>a % n\<close> of finite values, \<open>n \<noteq> 0\<close>: the quotient is truncated
  towards zero, so the result has the sign of \<open>a\<close>.\<close>

definition js_trunc :: "real \<Rightarrow> int" where
  "js_trunc x = (if 0 \<le> x then \<lfloor>x\<rfloor> else \<lceil>x\<rceil>)"

definition js_rem :: "real \<Rightarrow> real \<Rightarrow> real" where
  "js_rem a n = a - n * of_int (js_trunc (a / n))"

text \<open>\<^verbatim>\<open>Math.atan2(y, x)\<close> on finite arguments, in radians, in \<open>(-\<pi>, \<pi>]\<close>.\<close>

definition Math_atan2 :: "real \<Rightarrow> real \<Rightarrow> real" where
  "Math_atan2 y x =
     (if 0 < x then arctan (y / x)
      else if x < 0 \<and> 0 \<le> y then arctan (y / x) + pi
      else if x < 0 \<and> y < 0 then arctan (y / x) - pi
      else if 0 < y then pi / 2
      else if y < 0 then - (pi / 2)
      else 0)"

subsection \<open>Numbers in template literals\<close>

fun decimal :: "nat \<Rightarrow> string" where
  "decimal n =
     (if n < 10 then [''0123456789'' ! n]
      else decimal (n div 10) @ [''0123456789'' ! (n mod 10)])"

text \<open>
  \<^verbatim>\<open>`${v}`\<close> of a number. Special values and integers below \<open>10\<^sup>2\<^sup>1\<close> print as
  JavaScript prints them; the digits of any other finite value (the shortest decimal
  that reads back as the same double) are left to the parameter \<open>fmt\<close>.
\<close>

definition Number_toString :: "(real \<Rightarrow> string) \<Rightarrow> number \<Rightarrow> string" where
  "Number_toString fmt v =
     (case v of
        NaN \<Rightarrow> ''NaN''
      | PosInf \<Rightarrow> ''Infinity''
      | NegInf \<Rightarrow> ''-Infinity''
      | Num r \<Rightarrow>
          if r = of_int \<lfloor>r\<rfloor> \<and> \<bar>r\<bar> < 10 ^ 21
          then (if r < 0 then ''-'' @ decimal (nat (- \<lfloor>r\<rfloor>)) else decimal (nat \<lfloor>r\<rfloor>))
          else fmt r)"

text \<open>\<^verbatim>\<open>Array.prototype.join\<close> on strings.\<close>

fun join :: "string \<Rightarrow> string list \<Rightarrow> string" where
  "join sep [] = []"
| "join sep [x] = x"
| "join sep (x # y # ys) = x @ sep @ join sep (y # ys)"

subsection \<open>Sorting an array with a comparator\<close>

text \<open>
  \<^verbatim>\<open>Array.prototype.sort(cmp)\<close> is stable and sorts the array it is called on, in
  place; \<open>a\<close> goes after \<open>b\<close> exactly when \<open>cmp a b > 0\<close>, and a NaN from the
  comparator counts as \<open>0\<close>. For a consistent comparator every stable sort gives the
  same array, here by insertion from the right. (With NaN among the keys the
  comparator is inconsistent and the language leaves the order to the engine; the
  insertion below is then one possible outcome.)
\<close>

definition num_positive :: "number \<Rightarrow> bool" where
  "num_positive v = (case v of Num r \<Rightarrow> 0 < r | PosInf \<Rightarrow> True | NegInf \<Rightarrow> False | NaN \<Rightarrow> False)"

fun sort_insert :: "('a \<Rightarrow> 'a \<Rightarrow> number) \<Rightarrow> 'a \<Rightarrow> 'a list \<Rightarrow> 'a list" where
  "sort_insert cmp x [] = [x]"
| "sort_insert cmp x (y # ys) =
     (if num_positive (cmp x y) then y # sort_insert cmp x ys else x # y # ys)"

definition Array_sort :: "('a \<Rightarrow> 'a \<Rightarrow> number) \<Rightarrow> 'a list \<Rightarrow> 'a list" where
  "Array_sort cmp xs = foldr (sort_insert cmp) xs []"

section \<open>The gradient editor\<close>

record ColorStop =
  color :: string
  position :: number
  stop_id :: string

record DOMRect =
  rect_left :: real
  rect_top :: real
  rect_width :: real
  rect_height :: real

record MouseEvent =
  clientX :: real
  clientY :: real

text \<open>The component's state: the four \<^verbatim>\<open>useState\<close> cells of the later variant.\<close>

record editor =
  angle :: int
  colorStops :: "ColorStop list"
  draggingStop :: "string option"
  isDraggingAngle :: bool

datatype toast = ToastError string | ToastSuccess string

definition initial :: editor where
  "initial =
     \<lparr>angle = 90,
      colorStops =
        [\<lparr>color = ''#4A90E2'', position = Num 0, stop_id = ''1''\<rparr>,
         \<lparr>color = ''#50E3C2'', position = Num 100, stop_id = ''2''\<rparr>],
      draggingStop = None,
      isDraggingAngle = False\<rparr>"

text \<open>Truthiness of a \<^verbatim>\<open>string | null\<close>: null and the empty string are falsy.\<close>

definition truthy :: "string option \<Rightarrow> bool" where
  "truthy d = (case d of None \<Rightarrow> False | Some s \<Rightarrow> s \<noteq> [])"

subsection \<open>Rendering\<close>

text \<open>
  \<^verbatim>\<open>colorStops.sort((a, b) => a.position - b.position)\<close> is called on the state array
  itself: it returns that array, sorted, and the state holds the sorted array from
  then on.
\<close>

definition colorStops_sort :: "editor \<Rightarrow> editor" where
  "colorStops_sort st =
     st\<lparr>colorStops := Array_sort (\<lambda>a b. num_sub (position a) (position b)) (colorStops st)\<rparr>"

definition stop_text :: "(real \<Rightarrow> string) \<Rightarrow> ColorStop \<Rightarrow> string" where
  "stop_text fmt stop = color stop @ '' '' @ Number_toString fmt (position stop) @ ''%''"

definition gradientString :: "(real \<Rightarrow> string) \<Rightarrow> editor \<Rightarrow> string \<times> editor" where
  "gradientString fmt st =
     (let st' = colorStops_sort st
      in (''linear-gradient('' @ Number_toString fmt (Num (of_int (angle st))) @ ''deg, ''
            @ join '', '' (map (stop_text fmt) (colorStops st')) @ '')'',
          st'))"

text \<open>The earlier variant of the component maps the stops as they are stored.\<close>

definition gradientString_v1 :: "(real \<Rightarrow> string) \<Rightarrow> editor \<Rightarrow> string" where
  "gradientString_v1 fmt st =
     ''linear-gradient('' @ Number_toString fmt (Num (of_int (angle st))) @ ''deg, ''
       @ join '', '' (map (stop_text fmt) (colorStops st)) @ '')''"

subsection \<open>Handlers\<close>

text \<open>The position a drag computes:
  \<^verbatim>\<open>Math.max(0, Math.min(100, (x / rect.width) * 100))\<close> with
  \<^verbatim>\<open>x = e.clientX - rect.left\<close>.\<close>

definition dragPosition :: "DOMRect \<Rightarrow> MouseEvent \<Rightarrow> number" where
  "dragPosition rect e =
     (let x = num_sub (Num (clientX e)) (Num (rect_left rect))
      in Math_max (Num 0) (Math_min (Num 100) (num_mul (num_div x (Num (rect_width rect))) (Num 100))))"

text \<open>The same expression with the result of each of its three operations rounded.\<close>

definition dragPosition_double :: "DOMRect \<Rightarrow> MouseEvent \<Rightarrow> number" where
  "dragPosition_double rect e =
     (let x = double (num_sub (Num (clientX e)) (Num (rect_left rect)))
      in Math_max (Num 0) (Math_min (Num 100)
           (double (num_mul (double (num_div x (Num (rect_width rect)))) (Num 100)))))"

text \<open>The first argument of a handler that reads a ref is the rectangle of the element
  the ref holds, \<open>None\<close> when the ref is null.\<close>

definition handleStopDrag :: "DOMRect option \<Rightarrow> MouseEvent \<Rightarrow> string \<Rightarrow> editor \<Rightarrow> editor" where
  "handleStopDrag sliderRef e stopId st =
     (case sliderRef of
        None \<Rightarrow> st
      | Some rect \<Rightarrow>
          st\<lparr>colorStops :=
               map (\<lambda>stop. if stop_id stop = stopId
                            then stop\<lparr>position := dragPosition rect e\<rparr> else stop)
                   (colorStops st)\<rparr>)"

definition handleColorChange :: "string \<Rightarrow> string \<Rightarrow> editor \<Rightarrow> editor" where
  "handleColorChange c stopId st =
     st\<lparr>colorStops :=
          map (\<lambda>stop. if stop_id stop = stopId then stop\<lparr>color := c\<rparr> else stop)
              (colorStops st)\<rparr>"

text \<open>\<open>newId\<close> is what \<^verbatim>\<open>uuidv4()\<close> returns at this click.\<close>

definition handleSliderClick :: "DOMRect option \<Rightarrow> MouseEvent \<Rightarrow> string \<Rightarrow> editor \<Rightarrow> editor" where
  "handleSliderClick sliderRef e newId st =
     (case sliderRef of
        None \<Rightarrow> st
      | Some rect \<Rightarrow>
          if truthy (draggingStop st) then st
          else
            let x = num_sub (Num (clientX e)) (Num (rect_left rect));
                p = num_mul (num_div x (Num (rect_width rect))) (Num 100);
                newStop = \<lparr>color = ''#FFFFFF'', position = p, stop_id = newId\<rparr>
            in st\<lparr>colorStops := colorStops st @ [newStop]\<rparr>)"

text \<open>The angle of the pointer around the centre of the wheel, before rounding.\<close>

definition pointerAngle :: "DOMRect \<Rightarrow> MouseEvent \<Rightarrow> real" where
  "pointerAngle rect e =
     (let center_x = rect_left rect + rect_width rect / 2;
          center_y = rect_top rect + rect_height rect / 2
      in Math_atan2 (clientY e - center_y) (clientX e - center_x) * (180 / pi) + 90)"

definition normalizeAngle :: "real \<Rightarrow> real" where
  "normalizeAngle a = js_rem (js_rem a 360 + 360) 360"

text \<open>The same expression on a double \<open>a\<close>, with the sum rounded. The remainder of two
  doubles is a double, so \<^verbatim>\<open>%\<close> does not round; the sum is below 720, so the
  infinities do not arise.\<close>

definition normalizeAngle_double :: "real \<Rightarrow> number" where
  "normalizeAngle_double a =
     (case fl (js_rem a 360 + 360) of
        Num s \<Rightarrow> Num (js_rem s 360)
      | PosInf \<Rightarrow> NaN | NegInf \<Rightarrow> NaN | NaN \<Rightarrow> NaN)"

definition handleAngleChange :: "DOMRect option \<Rightarrow> MouseEvent \<Rightarrow> editor \<Rightarrow> editor" where
  "handleAngleChange wheelRef e st =
     (case wheelRef of
        None \<Rightarrow> st
      | Some rect \<Rightarrow> st\<lparr>angle := Math_round (normalizeAngle (pointerAngle rect e))\<rparr>)"

text \<open>The earlier variant: the same angle, rounded without the normalisation.\<close>

definition handleAngleWheel :: "DOMRect option \<Rightarrow> MouseEvent \<Rightarrow> editor \<Rightarrow> editor" where
  "handleAngleWheel wheelRef e st =
     (case wheelRef of
        None \<Rightarrow> st
      | Some rect \<Rightarrow> st\<lparr>angle := Math_round (pointerAngle rect e)\<rparr>)"

definition removeColorStop :: "string \<Rightarrow> editor \<Rightarrow> toast option \<times> editor" where
  "removeColorStop stopId st =
     (if length (colorStops st) \<le> 2
      then (Some (ToastError ''Minimum 2 color stops required''), st)
      else (None, st\<lparr>colorStops := filter (\<lambda>stop. stop_id stop \<noteq> stopId) (colorStops st)\<rparr>))"

text \<open>
  The \<^verbatim>\<open>onChange\<close> of a stop's numeric field. \<open>v\<close> is \<^verbatim>\<open>Number(e.target.value)\<close> and
  \<open>stop\<close> the stop the field was rendered for. The clamped position is computed and
  not used.
\<close>

definition positionInput_onChange :: "number \<Rightarrow> ColorStop \<Rightarrow> editor \<Rightarrow> editor" where
  "positionInput_onChange v stop st =
     (let p = Math_max (Num 0) (Math_min (Num 100) v)
      in handleColorChange (color stop) (stop_id stop) st)"

subsection \<open>Events\<close>

datatype event =
    Render
  | StopMouseDown string
  | WheelMouseDown "DOMRect option" MouseEvent
  | DocumentMouseMove "DOMRect option" "DOMRect option" MouseEvent
  | DocumentMouseUp
  | SliderClick "DOMRect option" MouseEvent string
  | ColorInput string string
  | PositionInput number ColorStop
  | RemoveClick string

text \<open>
  The move and up listeners exist only while their drag is on (the two effects return
  early otherwise).
\<close>

fun dispatch :: "event \<Rightarrow> editor \<Rightarrow> editor" where
  "dispatch Render st = colorStops_sort st"
| "dispatch (StopMouseDown stopId) st = st\<lparr>draggingStop := Some stopId\<rparr>"
| "dispatch (WheelMouseDown wheelRef e) st =
     handleAngleChange wheelRef e (st\<lparr>isDraggingAngle := True\<rparr>)"
| "dispatch (DocumentMouseMove sliderRef wheelRef e) st =
     (let st1 = (if isDraggingAngle st then handleAngleChange wheelRef e st else st)
      in case draggingStop st of
           None \<Rightarrow> st1
         | Some stopId \<Rightarrow> if stopId \<noteq> [] then handleStopDrag sliderRef e stopId st1 else st1)"
| "dispatch DocumentMouseUp st =
     (let st1 = (if isDraggingAngle st then st\<lparr>isDraggingAngle := False\<rparr> else st)
      in if truthy (draggingStop st) then st1\<lparr>draggingStop := None\<rparr> else st1)"
| "dispatch (SliderClick sliderRef e newId) st = handleSliderClick sliderRef e newId st"
| "dispatch (ColorInput c stopId) st = handleColorChange c stopId st"
| "dispatch (PositionInput v stop) st = positionInput_onChange v stop st"
| "dispatch (RemoveClick stopId) st = snd (removeColorStop stopId st)"

text \<open>
  Modelled from the spec: \<^verbatim>\<open>uuidv4\<close> is imported from \<^verbatim>\<open>@/lib/utils\<close>, which is not
  among the sources; the spec has \<^verbatim>\<open>addStop\<close> construct the stop "with a freshly
  generated unique id" that is never a duplicate. An event is admissible in a state
  when the id it brings is held by no stop of that state.
\<close>

fun fresh_id :: "event \<Rightarrow> editor \<Rightarrow> bool" where
  "fresh_id (SliderClick sliderRef e newId) st = (newId \<notin> stop_id ` set (colorStops st))"
| "fresh_id ev st = True"

inductive reachable :: "editor \<Rightarrow> bool" where
  reachable_initial: "reachable initial"
| reachable_dispatch: "reachable st \<Longrightarrow> fresh_id ev st \<Longrightarrow> reachable (dispatch ev st)"

text \<open>What the store keeps true of its stops: at least two, no id twice.\<close>

definition stops_ok :: "editor \<Rightarrow> bool" where
  "stops_ok st = (2 \<le> length (colorStops st) \<and> distinct (map stop_id (colorStops st)))"

section \<open>Concrete inputs\<close>

definition ex_slider :: DOMRect where
  "ex_slider = \<lparr>rect_left = 0, rect_top = 0, rect_width = 100, rect_height = 10\<rparr>"

definition ex_collapsed :: DOMRect where
  "ex_collapsed = \<lparr>rect_left = 0, rect_top = 0, rect_width = 0, rect_height = 0\<rparr>"

definition ex_wheel :: DOMRect where
  "ex_wheel = \<lparr>rect_left = 0, rect_top = 0, rect_width = 200, rect_height = 200\<rparr>"

definition mouse_at :: "real \<Rightarrow> real \<Rightarrow> MouseEvent" where
  "mouse_at x y = \<lparr>clientX = x, clientY = y\<rparr>"

definition stop_red :: ColorStop where
  "stop_red = \<lparr>color = ''#FF0000'', position = Num 80, stop_id = ''1''\<rparr>"

definition stop_green :: ColorStop where
  "stop_green = \<lparr>color = ''#00FF00'', position = Num 10, stop_id = ''2''\<rparr>"

definition stop_blue :: ColorStop where
  "stop_blue = \<lparr>color = ''#0000FF'', position = Num 50, stop_id = ''3''\<rparr>"

definition ex_unsorted :: editor where
  "ex_unsorted =
     \<lparr>angle = 90, colorStops = [stop_red, stop_green, stop_blue],
      draggingStop = None, isDraggingAngle = False\<rparr>"

section \<open>Numbers and sorting\<close>

lemma num_le_trans: "num_le a b \<Longrightarrow> num_le b c \<Longrightarrow> num_le a c"
  by (cases a; cases b; cases c) auto

lemma not_positive_sub:
  "a \<noteq> NaN \<Longrightarrow> b \<noteq> NaN \<Longrightarrow> \<not> num_positive (num_sub a b) \<Longrightarrow> num_le a b"
  by (cases a; cases b) (auto simp: num_positive_def)

lemma positive_sub:
  "a \<noteq> NaN \<Longrightarrow> b \<noteq> NaN \<Longrightarrow> num_positive (num_sub a b) \<Longrightarrow> num_le b a"
  by (cases a; cases b) (auto simp: num_positive_def)

lemma set_sort_insert: "set (sort_insert cmp x ys) = insert x (set ys)"
  by (induction ys) auto

lemma mset_sort_insert: "mset (sort_insert cmp x ys) = add_mset x (mset ys)"
  by (induction ys) auto

lemma mset_Array_sort: "mset (Array_sort cmp xs) = mset xs"
  by (induction xs) (auto simp: Array_sort_def mset_sort_insert)

lemma set_Array_sort: "set (Array_sort cmp xs) = set xs"
  using mset_Array_sort [of cmp xs] by (metis set_mset_mset)

lemma length_Array_sort: "length (Array_sort cmp xs) = length xs"
  using mset_Array_sort [of cmp xs] by (metis size_mset)

text \<open>Inserting into an array in position order keeps it in position order.\<close>

lemma sorted_sort_insert:
  assumes "position x \<noteq> NaN" and "NaN \<notin> position ` set ys"
    and "sorted_wrt (\<lambda>a b. num_le (position a) (position b)) ys"
  shows "sorted_wrt (\<lambda>a b. num_le (position a) (position b))
           (sort_insert (\<lambda>a b. num_sub (position a) (position b)) x ys)"
  using assms
proof (induction ys)
  case Nil
  then show ?case by simp
next
  case (Cons y ys)
  have y: "position y \<noteq> NaN"
    using Cons.prems(2) by (metis image_eqI list.set_intros(1))
  show ?case
  proof (cases "num_positive (num_sub (position x) (position y))")
    case True
    then have yx: "num_le (position y) (position x)"
      using Cons.prems(1) y by (simp add: positive_sub)
    have "sorted_wrt (\<lambda>a b. num_le (position a) (position b))
            (sort_insert (\<lambda>a b. num_sub (position a) (position b)) x ys)"
      using Cons by simp
    then show ?thesis
      using True yx Cons.prems(3) by (auto simp: set_sort_insert)
  next
    case False
    then have xy: "num_le (position x) (position y)"
      using Cons.prems(1) y by (simp add: not_positive_sub)
    then have "\<forall>z \<in> set ys. num_le (position x) (position z)"
      using Cons.prems(3) num_le_trans by auto
    then show ?thesis
      using False xy Cons.prems(3) by auto
  qed
qed

lemma sorted_Array_sort:
  "NaN \<notin> position ` set xs \<Longrightarrow>
   sorted_wrt (\<lambda>a b. num_le (position a) (position b))
     (Array_sort (\<lambda>a b. num_sub (position a) (position b)) xs)"
proof (induction xs)
  case Nil
  then show ?case by (simp add: Array_sort_def)
next
  case (Cons x xs)
  let ?cmp = "\<lambda>a b. num_sub (position a) (position b)"
  have "sorted_wrt (\<lambda>a b. num_le (position a) (position b)) (Array_sort ?cmp xs)"
    using Cons by simp
  moreover have "NaN \<notin> position ` set (Array_sort ?cmp xs)"
    using Cons.prems by (simp add: set_Array_sort)
  moreover have "position x \<noteq> NaN"
    using Cons.prems by (metis image_eqI list.set_intros(1))
  ultimately have "sorted_wrt (\<lambda>a b. num_le (position a) (position b))
      (sort_insert ?cmp x (Array_sort ?cmp xs))"
    by (intro sorted_sort_insert)
  then show ?case by (simp add: Array_sort_def)
qed

text \<open>Stops at the same position keep their order: the sort is stable.\<close>

lemma positive_sub_neq: "num_positive (num_sub a b) \<Longrightarrow> a \<noteq> b"
  by (cases a; cases b) (auto simp: num_positive_def)

lemma filter_sort_insert:
  "filter (\<lambda>s. position s = p) (sort_insert (\<lambda>a b. num_sub (position a) (position b)) x ys)
     = filter (\<lambda>s. position s = p) (x # ys)"
proof (induction ys)
  case Nil
  show ?case by simp
next
  case (Cons y ys)
  show ?case
  proof (cases "num_positive (num_sub (position x) (position y))")
    case True
    then have "position x \<noteq> position y" by (rule positive_sub_neq)
    then show ?thesis using True Cons by auto
  next
    case False
    then show ?thesis by simp
  qed
qed

lemma Array_sort_stable:
  "filter (\<lambda>s. position s = p) (Array_sort (\<lambda>a b. num_sub (position a) (position b)) xs)
     = filter (\<lambda>s. position s = p) xs"
proof (induction xs)
  case Nil
  show ?case by (simp add: Array_sort_def)
next
  case (Cons x xs)
  have "filter (\<lambda>s. position s = p)
          (sort_insert (\<lambda>a b. num_sub (position a) (position b)) x
             (Array_sort (\<lambda>a b. num_sub (position a) (position b)) xs))
      = filter (\<lambda>s. position s = p)
          (x # Array_sort (\<lambda>a b. num_sub (position a) (position b)) xs)"
    by (rule filter_sort_insert)
  then show ?case using Cons by (simp add: Array_sort_def)
qed

lemma snd_gradientString: "snd (gradientString fmt st) = colorStops_sort st"
  by (simp add: gradientString_def Let_def)

lemma sort_ex_unsorted:
  "colorStops (colorStops_sort ex_unsorted) = [stop_green, stop_blue, stop_red]"
  by (simp add: colorStops_sort_def ex_unsorted_def Array_sort_def num_positive_def
      stop_red_def stop_green_def stop_blue_def)

section \<open>Rendering order\<close>

text \<open>
  The later variant sorts before it maps. Whatever the order in which the stops are
  stored, its string lists them in non-decreasing order of position: the string is the
  prefix with the angle, the texts of the stops of an array that is in position order
  and holds the same stops as the stored one, joined by commas, and the closing bracket.
  Stops stored with positions 80, 10, 50 are listed as 10, 50, 80. (The positions are
  numbers, not NaN: NaN has no place in an order.)
\<close>

lemma gradientString_position_order:
  assumes "NaN \<notin> position ` set (colorStops st)"
  shows "sorted_wrt num_le (map position (colorStops (snd (gradientString fmt st))))
    \<and> mset (colorStops (snd (gradientString fmt st))) = mset (colorStops st)
    \<and> fst (gradientString fmt st) =
        ''linear-gradient('' @ Number_toString fmt (Num (of_int (angle st))) @ ''deg, ''
          @ join '', '' (map (stop_text fmt) (colorStops (snd (gradientString fmt st)))) @ '')''
    \<and> fst (gradientString fmt
          \<lparr>angle = a,
           colorStops = [\<lparr>color = c1, position = Num 80, stop_id = i1\<rparr>,
                         \<lparr>color = c2, position = Num 10, stop_id = i2\<rparr>,
                         \<lparr>color = c3, position = Num 50, stop_id = i3\<rparr>],
           draggingStop = d, isDraggingAngle = g\<rparr>) =
        ''linear-gradient('' @ Number_toString fmt (Num (of_int a)) @ ''deg, ''
          @ c2 @ '' 10%, '' @ c3 @ '' 50%, '' @ c1 @ '' 80%)''"
proof -
  have "sorted_wrt (\<lambda>a b. num_le (position a) (position b))
          (Array_sort (\<lambda>a b. num_sub (position a) (position b)) (colorStops st))"
    using assms by (rule sorted_Array_sort)
  then have 1: "sorted_wrt num_le (map position (colorStops (snd (gradientString fmt st))))"
    by (simp add: snd_gradientString colorStops_sort_def sorted_wrt_map)
  have 2: "mset (colorStops (snd (gradientString fmt st))) = mset (colorStops st)"
    by (simp add: snd_gradientString colorStops_sort_def mset_Array_sort)
  have 3: "fst (gradientString fmt st) =
        ''linear-gradient('' @ Number_toString fmt (Num (of_int (angle st))) @ ''deg, ''
          @ join '', '' (map (stop_text fmt) (colorStops (snd (gradientString fmt st)))) @ '')''"
    by (simp add: gradientString_def Let_def colorStops_sort_def)
  have d: "Number_toString fmt (Num 10) = ''10''" "Number_toString fmt (Num 50) = ''50''"
    "Number_toString fmt (Num 80) = ''80''"
    by (simp_all add: Number_toString_def)
  have 4: "fst (gradientString fmt
          \<lparr>angle = a,
           colorStops = [\<lparr>color = c1, position = Num 80, stop_id = i1\<rparr>,
                         \<lparr>color = c2, position = Num 10, stop_id = i2\<rparr>,
                         \<lparr>color = c3, position = Num 50, stop_id = i3\<rparr>],
           draggingStop = d, isDraggingAngle = g\<rparr>) =
        ''linear-gradient('' @ Number_toString fmt (Num (of_int a)) @ ''deg, ''
          @ c2 @ '' 10%, '' @ c3 @ '' 50%, '' @ c1 @ '' 80%)''"
    by (simp add: gradientString_def Let_def colorStops_sort_def Array_sort_def
        num_positive_def stop_text_def d)
  from 1 2 3 4 show ?thesis by blast
qed

lemma gradientString_position_order_example:
  "NaN \<notin> position ` set (colorStops ex_unsorted)
   \<and> sorted_wrt num_le (map position (colorStops (snd (gradientString (\<lambda>r. []) ex_unsorted))))
   \<and> map position (colorStops (snd (gradientString (\<lambda>r. []) ex_unsorted)))
       = [Num 10, Num 50, Num 80]"
proof -
  have h: "NaN \<notin> position ` set (colorStops ex_unsorted)"
    by (simp add: ex_unsorted_def stop_red_def stop_green_def stop_blue_def)
  have "map position (colorStops (snd (gradientString (\<lambda>r. []) ex_unsorted)))
       = [Num 10, Num 50, Num 80]"
    by (simp add: snd_gradientString sort_ex_unsorted stop_red_def stop_green_def stop_blue_def)
  then show ?thesis
    using h gradientString_position_order [OF h, of "\<lambda>r. []"] by blast
qed

text \<open>
  Claim C1 has the rendered string list the stops in non-decreasing order of position,
  whatever the order in which they are stored. The earlier variant of the component has
  no sort and lists the stops as they are stored: after a drag of the first stop to 80
  and of the second to 10 it lists 80 before 10, and stops stored with positions
  80, 10, 50 are listed in that order.
\<close>

theorem gradientString_v1_stored_order:
  "map position (colorStops (handleStopDrag (Some ex_slider) (mouse_at 10 5) ''2''
       (handleStopDrag (Some ex_slider) (mouse_at 80 5) ''1'' initial))) = [Num 80, Num 10]
   \<and> gradientString_v1 fmt (handleStopDrag (Some ex_slider) (mouse_at 10 5) ''2''
       (handleStopDrag (Some ex_slider) (mouse_at 80 5) ''1'' initial)) =
     ''linear-gradient(90deg, #4A90E2 80%, #50E3C2 10%)''
   \<and> gradientString_v1 fmt ex_unsorted =
     ''linear-gradient(90deg, #FF0000 80%, #00FF00 10%, #0000FF 50%)''"
proof -
  have p: "dragPosition ex_slider (mouse_at 80 5) = Num 80"
    "dragPosition ex_slider (mouse_at 10 5) = Num 10"
    by (simp_all add: dragPosition_def ex_slider_def mouse_at_def Math_max_def Math_min_def)
  have d: "handleStopDrag (Some ex_slider) (mouse_at 10 5) ''2''
       (handleStopDrag (Some ex_slider) (mouse_at 80 5) ''1'' initial) =
     \<lparr>angle = 90,
      colorStops =
        [\<lparr>color = ''#4A90E2'', position = Num 80, stop_id = ''1''\<rparr>,
         \<lparr>color = ''#50E3C2'', position = Num 10, stop_id = ''2''\<rparr>],
      draggingStop = None,
      isDraggingAngle = False\<rparr>"
    by (simp add: handleStopDrag_def p initial_def)
  have 1: "gradientString_v1 fmt ex_unsorted =
     ''linear-gradient(90deg, #FF0000 80%, #00FF00 10%, #0000FF 50%)''"
    by (simp add: gradientString_v1_def ex_unsorted_def stop_text_def Number_toString_def
        stop_red_def stop_green_def stop_blue_def)
  show ?thesis
    unfolding d by (simp add: 1) (simp add: gradientString_v1_def stop_text_def Number_toString_def)
qed

text \<open>
  Claim C2. Rendering is said to sort a copy and to leave the stored array as it was. The
  sort runs on the stored array: rendering the state that stores the positions
  80, 10, 50 returns the string and leaves the state storing 10, 50, 80.
\<close>

theorem gradientString_reorders_stored_stops:
  "map position (colorStops ex_unsorted) = [Num 80, Num 10, Num 50]
   \<and> map position (colorStops (snd (gradientString fmt ex_unsorted))) = [Num 10, Num 50, Num 80]
   \<and> fst (gradientString fmt ex_unsorted) =
       ''linear-gradient(90deg, #00FF00 10%, #0000FF 50%, #FF0000 80%)''
   \<and> snd (gradientString fmt ex_unsorted) \<noteq> ex_unsorted"
proof -
  have 1: "map position (colorStops ex_unsorted) = [Num 80, Num 10, Num 50]"
    by (simp add: ex_unsorted_def stop_red_def stop_green_def stop_blue_def)
  have 2: "map position (colorStops (snd (gradientString fmt ex_unsorted)))
      = [Num 10, Num 50, Num 80]"
    by (simp add: snd_gradientString sort_ex_unsorted stop_red_def stop_green_def stop_blue_def)
  have 3: "fst (gradientString fmt ex_unsorted) =
       ''linear-gradient(90deg, #00FF00 10%, #0000FF 50%, #FF0000 80%)''"
    by (simp add: gradientString_def Let_def sort_ex_unsorted stop_text_def Number_toString_def
        stop_red_def stop_green_def stop_blue_def)
      (simp add: ex_unsorted_def)
  have "colorStops (snd (gradientString fmt ex_unsorted)) \<noteq> colorStops ex_unsorted"
    by (simp add: snd_gradientString sort_ex_unsorted)
      (simp add: ex_unsorted_def stop_red_def stop_green_def)
  then have 4: "snd (gradientString fmt ex_unsorted) \<noteq> ex_unsorted"
    by auto
  from 1 2 3 4 show ?thesis by blast
qed

section \<open>The stop set\<close>

lemma ids_map_color:
  "stop_id \<circ> (\<lambda>stop. if stop_id stop = stopId then stop\<lparr>color := c\<rparr> else stop) = stop_id"
  by (rule ext) simp

lemma ids_map_position:
  "stop_id \<circ> (\<lambda>stop. if stop_id stop = stopId then stop\<lparr>position := p\<rparr> else stop) = stop_id"
  by (rule ext) simp

lemma length_filter_distinct:
  "distinct (map stop_id xs) \<Longrightarrow>
   length xs \<le> Suc (length (filter (\<lambda>stop. stop_id stop \<noteq> stopId) xs))"
proof (induction xs)
  case Nil
  then show ?case by simp
next
  case (Cons x xs)
  show ?case
  proof (cases "stop_id x = stopId")
    case True
    then have "stopId \<notin> stop_id ` set xs" using Cons.prems by auto
    then have "filter (\<lambda>stop. stop_id stop \<noteq> stopId) xs = xs"
      by (auto simp: filter_id_conv)
    then show ?thesis using True by simp
  next
    case False
    then show ?thesis using Cons by simp
  qed
qed

lemma stops_ok_handleColorChange: "stops_ok st \<Longrightarrow> stops_ok (handleColorChange c stopId st)"
  by (simp add: stops_ok_def handleColorChange_def ids_map_color)

lemma stops_ok_handleStopDrag: "stops_ok st \<Longrightarrow> stops_ok (handleStopDrag sliderRef e stopId st)"
  by (simp add: stops_ok_def handleStopDrag_def ids_map_position split: option.splits)

lemma stops_ok_handleAngleChange: "stops_ok st \<Longrightarrow> stops_ok (handleAngleChange wheelRef e st)"
  by (simp add: stops_ok_def handleAngleChange_def split: option.splits)

lemma stops_ok_handleSliderClick:
  "stops_ok st \<Longrightarrow> newId \<notin> stop_id ` set (colorStops st) \<Longrightarrow>
   stops_ok (handleSliderClick sliderRef e newId st)"
  by (simp add: stops_ok_def handleSliderClick_def Let_def split: option.splits)

lemma stops_ok_removeColorStop: "stops_ok st \<Longrightarrow> stops_ok (snd (removeColorStop stopId st))"
proof -
  assume ok: "stops_ok st"
  show ?thesis
  proof (cases "length (colorStops st) \<le> 2")
    case True
    then show ?thesis using ok by (simp add: removeColorStop_def)
  next
    case False
    have "distinct (map stop_id (colorStops st))" using ok by (simp add: stops_ok_def)
    then have "length (colorStops st)
        \<le> Suc (length (filter (\<lambda>stop. stop_id stop \<noteq> stopId) (colorStops st)))"
      by (rule length_filter_distinct)
    then have "2 \<le> length (filter (\<lambda>stop. stop_id stop \<noteq> stopId) (colorStops st))"
      using False by linarith
    then show ?thesis
      using False ok by (simp add: removeColorStop_def stops_ok_def distinct_map_filter)
  qed
qed

lemma stops_ok_colorStops_sort: "stops_ok st \<Longrightarrow> stops_ok (colorStops_sort st)"
proof -
  assume ok: "stops_ok st"
  let ?xs = "Array_sort (\<lambda>a b. num_sub (position a) (position b)) (colorStops st)"
  have "mset (map stop_id ?xs) = mset (map stop_id (colorStops st))"
    by (simp add: mset_Array_sort)
  then have "distinct (map stop_id ?xs) = distinct (map stop_id (colorStops st))"
    by (rule mset_eq_imp_distinct_iff)
  then show ?thesis
    using ok by (simp add: stops_ok_def colorStops_sort_def length_Array_sort)
qed

lemma stops_ok_dispatch: "stops_ok st \<Longrightarrow> fresh_id ev st \<Longrightarrow> stops_ok (dispatch ev st)"
proof (cases ev)
  case Render
  assume "stops_ok st"
  then show ?thesis using Render by (simp add: stops_ok_colorStops_sort)
next
  case (StopMouseDown x)
  assume "stops_ok st"
  then show ?thesis using StopMouseDown by (simp add: stops_ok_def)
next
  case (WheelMouseDown r e)
  assume "stops_ok st"
  then have "stops_ok (st\<lparr>isDraggingAngle := True\<rparr>)" by (simp add: stops_ok_def)
  then show ?thesis using WheelMouseDown by (simp add: stops_ok_handleAngleChange)
next
  case (DocumentMouseMove r w e)
  assume "stops_ok st"
  then show ?thesis using DocumentMouseMove
    by (simp add: Let_def stops_ok_handleAngleChange stops_ok_handleStopDrag split: option.splits)
next
  case DocumentMouseUp
  assume "stops_ok st"
  then show ?thesis using DocumentMouseUp by (simp add: stops_ok_def Let_def)
next
  case (SliderClick r e n)
  assume "stops_ok st" "fresh_id ev st"
  then show ?thesis using SliderClick by (simp add: stops_ok_handleSliderClick)
next
  case (ColorInput c i)
  assume "stops_ok st"
  then show ?thesis using ColorInput by (simp add: stops_ok_handleColorChange)
next
  case (PositionInput v s)
  assume "stops_ok st"
  then show ?thesis using PositionInput
    by (simp add: positionInput_onChange_def stops_ok_handleColorChange)
next
  case (RemoveClick i)
  assume "stops_ok st"
  then show ?thesis using RemoveClick by (simp add: stops_ok_removeColorStop)
qed

lemma reachable_stops_ok: "reachable st \<Longrightarrow> stops_ok st"
proof (induction rule: reachable.induct)
  case reachable_initial
  show ?case by (simp add: stops_ok_def initial_def)
next
  case (reachable_dispatch st ev)
  then show ?case by (simp add: stops_ok_dispatch)
qed

lemma map_no_match:
  "stopId \<notin> stop_id ` set xs \<Longrightarrow>
   map (\<lambda>stop. if stop_id stop = stopId then f stop else stop) xs = xs"
  by (induction xs) auto

lemma map_same_color:
  "distinct (map stop_id xs) \<Longrightarrow> s \<in> set xs \<Longrightarrow>
   map (\<lambda>stop. if stop_id stop = stop_id s then stop\<lparr>color := color s\<rparr> else stop) xs = xs"
proof (induction xs)
  case Nil
  then show ?case by simp
next
  case (Cons x xs)
  show ?case
  proof (cases "s = x")
    case True
    then have "stop_id s \<notin> stop_id ` set xs" using Cons.prems by auto
    then show ?thesis using True by (simp add: map_no_match)
  next
    case False
    then have "s \<in> set xs" using Cons.prems by simp
    then have "stop_id x \<noteq> stop_id s" using Cons.prems by force
    then show ?thesis using Cons \<open>s \<in> set xs\<close> by simp
  qed
qed

lemma filter_all_length: "length (filter P xs) = length xs \<Longrightarrow> filter P xs = xs"
  by (metis filter_True length_filter_less linorder_neq_iff)

text \<open>
  Claim C3. In a state whose stops have distinct ids: when taking the stop with the given
  id away would leave fewer than two stops, \<open>removeColorStop\<close> raises the error toast and
  returns the state as it was; otherwise the state it returns holds exactly the stops
  with another id, in their order, and nothing else has changed.
\<close>

theorem removeColorStop_minimum:
  assumes "distinct (map stop_id (colorStops st))"
  shows "if length (filter (\<lambda>stop. stop_id stop \<noteq> stopId) (colorStops st)) < 2
         then removeColorStop stopId st =
                (Some (ToastError ''Minimum 2 color stops required''), st)
         else snd (removeColorStop stopId st) =
                st\<lparr>colorStops := filter (\<lambda>stop. stop_id stop \<noteq> stopId) (colorStops st)\<rparr>"
proof (cases "length (colorStops st) \<le> 2")
  case True
  show ?thesis
  proof (cases "length (filter (\<lambda>stop. stop_id stop \<noteq> stopId) (colorStops st)) < 2")
    case lt: True
    then show ?thesis using True by (simp add: removeColorStop_def)
  next
    case False
    moreover have "length (filter (\<lambda>stop. stop_id stop \<noteq> stopId) (colorStops st))
        \<le> length (colorStops st)"
      by simp
    ultimately have "length (filter (\<lambda>stop. stop_id stop \<noteq> stopId) (colorStops st))
        = length (colorStops st)"
      using True by linarith
    then have "filter (\<lambda>stop. stop_id stop \<noteq> stopId) (colorStops st) = colorStops st"
      by (rule filter_all_length)
    then show ?thesis using True False by (simp add: removeColorStop_def)
  qed
next
  case False
  then have "\<not> length (filter (\<lambda>stop. stop_id stop \<noteq> stopId) (colorStops st)) < 2"
    using length_filter_distinct [OF assms, of stopId] by linarith
  then show ?thesis using False by (simp add: removeColorStop_def)
qed

theorem removeColorStop_minimum_witness:
  "distinct (map stop_id (colorStops initial))
   \<and> removeColorStop ''1'' initial =
       (Some (ToastError ''Minimum 2 color stops required''), initial)
   \<and> distinct (map stop_id (colorStops ex_unsorted))
   \<and> snd (removeColorStop ''2'' ex_unsorted) =
       ex_unsorted\<lparr>colorStops := [stop_red, stop_blue]\<rparr>"
proof -
  have h1: "distinct (map stop_id (colorStops initial))"
    by (simp add: initial_def)
  have h2: "distinct (map stop_id (colorStops ex_unsorted))"
    by (simp add: ex_unsorted_def stop_red_def stop_green_def stop_blue_def)
  have f1: "filter (\<lambda>stop. stop_id stop \<noteq> ''1'') (colorStops initial)
      = [\<lparr>color = ''#50E3C2'', position = Num 100, stop_id = ''2''\<rparr>]"
    by (simp add: initial_def)
  have f2: "filter (\<lambda>stop. stop_id stop \<noteq> ''2'') (colorStops ex_unsorted)
      = [stop_red, stop_blue]"
    by (simp add: ex_unsorted_def stop_red_def stop_green_def stop_blue_def)
  show ?thesis
    using h1 h2 removeColorStop_minimum [OF h1, of "''1''"]
      removeColorStop_minimum [OF h2, of "''2''"]
    by (simp add: f1 f2)
qed

text \<open>
  Claim C4. Every state reached from the initial one by the events of the component
  (rendering, the drag of a stop or of the wheel, a click on the slider that brings a
  fresh id, an edit of a colour or of a position field, a removal) holds at least two
  stops.
\<close>

theorem reachable_two_stops: "reachable st \<Longrightarrow> 2 \<le> length (colorStops st)"
  using reachable_stops_ok by (simp add: stops_ok_def)

theorem reachable_two_stops_witness:
  "reachable (dispatch (RemoveClick ''1'')
      (dispatch (SliderClick (Some ex_slider) (mouse_at 50 5) ''3'') initial))
   \<and> 2 \<le> length (colorStops (dispatch (RemoveClick ''1'')
      (dispatch (SliderClick (Some ex_slider) (mouse_at 50 5) ''3'') initial)))
   \<and> map stop_id (colorStops (dispatch (RemoveClick ''1'')
      (dispatch (SliderClick (Some ex_slider) (mouse_at 50 5) ''3'') initial))) = [''2'', ''3'']"
proof -
  have "reachable (dispatch (SliderClick (Some ex_slider) (mouse_at 50 5) ''3'') initial)"
    by (rule reachable_dispatch [OF reachable_initial]) (simp add: initial_def)
  then have r: "reachable (dispatch (RemoveClick ''1'')
      (dispatch (SliderClick (Some ex_slider) (mouse_at 50 5) ''3'') initial))"
    by (rule reachable_dispatch) simp
  have "map stop_id (colorStops (dispatch (RemoveClick ''1'')
      (dispatch (SliderClick (Some ex_slider) (mouse_at 50 5) ''3'') initial))) = [''2'', ''3'']"
    by (simp add: handleSliderClick_def removeColorStop_def initial_def truthy_def Let_def)
  then show ?thesis using r reachable_two_stops [OF r] by blast
qed

text \<open>
  Claim C8. An update that names an id no stop holds changes nothing: the colour change
  and the drag both return the state they were given, whatever the colour, the pointer
  and the rectangle.
\<close>

theorem unknown_stop_noop:
  assumes "stopId \<notin> stop_id ` set (colorStops st)"
  shows "handleColorChange c stopId st = st \<and> handleStopDrag sliderRef e stopId st = st"
  using assms
  by (simp add: handleColorChange_def handleStopDrag_def map_no_match split: option.splits)

theorem unknown_stop_noop_witness:
  "''3'' \<notin> stop_id ` set (colorStops initial)
   \<and> handleColorChange ''#000000'' ''3'' initial = initial
   \<and> handleStopDrag (Some ex_slider) (mouse_at 50 5) ''3'' initial = initial"
proof -
  have h: "''3'' \<notin> stop_id ` set (colorStops initial)"
    by (simp add: initial_def)
  show ?thesis
    using h unknown_stop_noop [OF h, of "''#000000''" "Some ex_slider" "mouse_at 50 5"]
    by blast
qed

text \<open>
  Claim C10. The numeric field of a stop changes nothing, whatever is entered: its handler
  is the colour change with the stop's own colour and id, and in a state with distinct
  ids that returns the state it was given.
\<close>

theorem positionInput_noop:
  assumes "stop \<in> set (colorStops st)" and "distinct (map stop_id (colorStops st))"
  shows "positionInput_onChange v stop st = handleColorChange (color stop) (stop_id stop) st
    \<and> positionInput_onChange v stop st = st"
  using assms by (simp add: positionInput_onChange_def handleColorChange_def map_same_color)

theorem positionInput_noop_witness:
  "stop_green \<in> set (colorStops ex_unsorted)
   \<and> distinct (map stop_id (colorStops ex_unsorted))
   \<and> positionInput_onChange (Num 42) stop_green ex_unsorted = ex_unsorted"
proof -
  have h1: "stop_green \<in> set (colorStops ex_unsorted)"
    by (simp add: ex_unsorted_def)
  have h2: "distinct (map stop_id (colorStops ex_unsorted))"
    by (simp add: ex_unsorted_def stop_red_def stop_green_def stop_blue_def)
  show ?thesis
    using h1 h2 positionInput_noop [OF h1 h2, of "Num 42"] by blast
qed

section \<open>Rounding to doubles\<close>

lemma round_even_of_int [simp]: "round_even (of_int n) = n"
  by (simp add: round_even_def)

lemma round_even_cases: "round_even x = \<lfloor>x\<rfloor> \<or> round_even x = \<lfloor>x\<rfloor> + 1"
  by (simp add: round_even_def Let_def)

lemma round_even_mono: "x \<le> y \<Longrightarrow> round_even x \<le> round_even y"
proof -
  assume xy: "x \<le> y"
  then have floors: "\<lfloor>x\<rfloor> \<le> \<lfloor>y\<rfloor>" by (rule floor_mono)
  show ?thesis
  proof (cases "\<lfloor>x\<rfloor> < \<lfloor>y\<rfloor>")
    case True
    have "round_even x \<le> \<lfloor>x\<rfloor> + 1" using round_even_cases [of x] by linarith
    moreover have "\<lfloor>y\<rfloor> \<le> round_even y" using round_even_cases [of y] by linarith
    ultimately show ?thesis using True by linarith
  next
    case False
    then have eq: "\<lfloor>x\<rfloor> = \<lfloor>y\<rfloor>" using floors by linarith
    have "x - of_int \<lfloor>y\<rfloor> \<le> y - of_int \<lfloor>y\<rfloor>" using xy by simp
    then show ?thesis by (auto simp: round_even_def Let_def eq)
  qed
qed

lemma two_powi_pos [simp]: "0 < (2::real) powi k"
  by simp

lemma two_powi_less: "(2::real) powi a < 2 powi b \<Longrightarrow> a < b"
proof (rule ccontr)
  assume lt: "(2::real) powi a < 2 powi b" and "\<not> a < b"
  then have "b \<le> a" by simp
  then have "(2::real) powi b \<le> 2 powi a" by (intro power_int_increasing) simp_all
  with lt show False by simp
qed

lemma binade_ge: "- 1022 \<le> binade x"
  by (simp add: binade_def)

lemma binade_bounds:
  "\<bar>x\<bar> < 2 powi (binade x + 1) \<and> (- 1022 < binade x \<longrightarrow> 2 powi (binade x) \<le> \<bar>x\<bar>)"
proof -
  define s where "s = \<bar>x\<bar> * 2 ^ 1074"
  define m where "m = \<lfloor>s\<rfloor>"
  define b where "b = bitlen m"
  have bin: "binade x = max (b - 1075) (- 1022)"
    by (simp add: binade_def b_def m_def s_def)
  have x: "\<bar>x\<bar> = s * 2 powi (- 1074)"
    by (simp add: s_def power_int_minus)
  have s0: "0 \<le> s" by (simp add: s_def)
  then have m0: "0 \<le> m" by (simp add: m_def)
  show ?thesis
  proof (cases "m = 0")
    case True
    then have "s < 1" unfolding m_def by linarith
    then have "\<bar>x\<bar> < 2 powi (- 1074)"
      unfolding x by simp
    also have "(2::real) powi (- 1074) \<le> 2 powi (binade x + 1)"
      using binade_ge [of x] by (intro power_int_increasing) simp_all
    finally have 1: "\<bar>x\<bar> < 2 powi (binade x + 1)" .
    have "b = 0" using True by (simp add: b_def)
    then have "binade x = - 1022" using bin by simp
    with 1 show ?thesis by simp
  next
    case False
    then have mpos: "0 < m" using m0 by simp
    then have bb: "2 ^ nat (b - 1) \<le> m" "m < 2 ^ nat b"
      using bitlen_bounds [of m] by (simp_all add: b_def)
    have b1: "1 \<le> b"
      using mpos bitlen_eq_zero_iff [of m] bitlen_nonneg [of m] unfolding b_def by linarith
    have ms: "real_of_int m \<le> s" "s < real_of_int m + 1"
      unfolding m_def by linarith+
    have "(2::real) ^ nat (b - 1) = real_of_int (2 ^ nat (b - 1))" by simp
    also have "\<dots> \<le> real_of_int m" using bb(1) by (simp only: of_int_le_iff)
    also have "\<dots> \<le> s" by (rule ms(1))
    finally have "(2::real) ^ nat (b - 1) \<le> s" .
    moreover have "(2::real) powi (b - 1) = 2 ^ nat (b - 1)"
      using b1 by (simp add: power_int_def)
    ultimately have lo: "(2::real) powi (b - 1) \<le> s" by simp
    have "m + 1 \<le> 2 ^ nat b" using bb(2) by linarith
    then have "real_of_int (m + 1) \<le> real_of_int (2 ^ nat b)"
      by (simp only: of_int_le_iff)
    also have "\<dots> = (2::real) ^ nat b" by simp
    finally have "real_of_int m + 1 \<le> (2::real) ^ nat b" by simp
    then have "s < (2::real) ^ nat b" using ms(2) by linarith
    moreover have "(2::real) powi b = 2 ^ nat b"
      using b1 by (simp add: power_int_def)
    ultimately have hi: "s < (2::real) powi b" by simp
    have "\<bar>x\<bar> < 2 powi b * 2 powi (- 1074)"
      unfolding x using hi by (intro mult_strict_right_mono) simp_all
    also have "(2::real) powi b * 2 powi (- 1074) = 2 powi (b - 1074)"
      by (subst power_int_add [symmetric]) simp_all
    finally have hi': "\<bar>x\<bar> < 2 powi (b - 1074)" .
    have "(2::real) powi (b - 1) * 2 powi (- 1074) \<le> \<bar>x\<bar>"
      unfolding x using lo by (intro mult_right_mono) simp_all
    moreover have "(2::real) powi (b - 1) * 2 powi (- 1074) = 2 powi (b - 1075)"
      by (subst power_int_add [symmetric]) simp_all
    ultimately have lo': "(2::real) powi (b - 1075) \<le> \<bar>x\<bar>" by simp
    have "(2::real) powi (b - 1074) \<le> 2 powi (binade x + 1)"
      unfolding bin by (intro power_int_increasing) simp_all
    with hi' have 1: "\<bar>x\<bar> < 2 powi (binade x + 1)" by linarith
    have 2: "2 powi (binade x) \<le> \<bar>x\<bar>" if "- 1022 < binade x"
    proof -
      from that have "binade x = b - 1075" unfolding bin by linarith
      with lo' show ?thesis by simp
    qed
    from 1 2 show ?thesis by blast
  qed
qed

lemma binade_upper: "\<bar>x\<bar> < 2 powi (binade x + 1)"
  using binade_bounds by blast

lemma binade_lower: "2 powi (- 1022) \<le> \<bar>x\<bar> \<Longrightarrow> 2 powi (binade x) \<le> \<bar>x\<bar>"
  using binade_bounds [of x] binade_ge [of x] by (cases "binade x = - 1022") auto

lemma binade_eq:
  assumes "- 1022 \<le> e" and "2 powi e \<le> \<bar>x\<bar>" and "\<bar>x\<bar> < 2 powi (e + 1)"
  shows "binade x = e"
proof -
  have "(2::real) powi e < 2 powi (binade x + 1)"
    using assms(2) binade_upper [of x] by linarith
  then have 1: "e \<le> binade x" using two_powi_less by fastforce
  have "(2::real) powi (- 1022) \<le> 2 powi e"
    using assms(1) by (intro power_int_increasing) simp_all
  then have "2 powi (binade x) \<le> \<bar>x\<bar>"
    using assms(2) by (intro binade_lower) linarith
  then have "(2::real) powi (binade x) < 2 powi (e + 1)"
    using assms(3) by linarith
  then have "binade x \<le> e" using two_powi_less by fastforce
  with 1 show ?thesis by simp
qed

lemma binade_subnormal: "\<bar>x\<bar> < 2 powi (- 1022) \<Longrightarrow> binade x = - 1022"
proof (rule ccontr)
  assume lt: "\<bar>x\<bar> < 2 powi (- 1022)" and "binade x \<noteq> - 1022"
  then have gt: "- 1022 < binade x" using binade_ge [of x] by linarith
  then have "2 powi (binade x) \<le> \<bar>x\<bar>" using binade_bounds by blast
  moreover have "(2::real) powi (- 1022) \<le> 2 powi (binade x)"
    using gt by (intro power_int_increasing) simp_all
  ultimately show False using lt by linarith
qed

lemma binade_mono: "\<bar>x\<bar> \<le> \<bar>y\<bar> \<Longrightarrow> binade x \<le> binade y"
proof (rule ccontr)
  assume le: "\<bar>x\<bar> \<le> \<bar>y\<bar>" and "\<not> binade x \<le> binade y"
  then have gt: "binade y + 1 \<le> binade x" by simp
  then have "- 1022 < binade x" using binade_ge [of y] by linarith
  then have "2 powi (binade x) \<le> \<bar>x\<bar>" using binade_bounds by blast
  moreover have "(2::real) powi (binade y + 1) \<le> 2 powi (binade x)"
    using gt by (intro power_int_increasing) simp_all
  ultimately show False using le binade_upper [of y] by linarith
qed

lemma ulp_pos [simp]: "0 < ulp x"
  by (simp add: ulp_def)

lemma ulp_nonneg [simp]: "0 \<le> ulp x"
  by (simp add: ulp_def)

lemma nearest_nonneg: "0 \<le> x \<Longrightarrow> 0 \<le> nearest x"
proof -
  assume "0 \<le> x"
  then have "0 \<le> x / ulp x" by simp
  then have "round_even 0 \<le> round_even (x / ulp x)" by (rule round_even_mono)
  then have "0 \<le> round_even (x / ulp x)" using round_even_of_int [of 0] by simp
  then show ?thesis by (simp add: nearest_def)
qed

lemma nearest_nonpos: "x \<le> 0 \<Longrightarrow> nearest x \<le> 0"
proof -
  assume "x \<le> 0"
  then have "x / ulp x \<le> 0" by (simp add: divide_nonpos_pos)
  then have "round_even (x / ulp x) \<le> round_even 0" by (rule round_even_mono)
  then have "round_even (x / ulp x) \<le> 0" using round_even_of_int [of 0] by simp
  then have "real_of_int (round_even (x / ulp x)) \<le> 0" by simp
  then show ?thesis unfolding nearest_def by (rule mult_nonpos_nonneg) simp
qed

lemma ulp_53: "real_of_int (2 ^ 53) * ulp x = 2 powi (binade x + 1)"
proof -
  have "real_of_int (2 ^ 53) * ulp x = 2 powi 53 * 2 powi (binade x - 52)"
    by (simp add: ulp_def)
  also have "\<dots> = 2 powi (53 + (binade x - 52))"
    by (rule power_int_add [symmetric]) simp
  also have "53 + (binade x - 52) = binade x + 1" by simp
  finally show ?thesis .
qed

lemma ulp_52: "real_of_int (2 ^ 52) * ulp x = 2 powi (binade x)"
proof -
  have "real_of_int (2 ^ 52) * ulp x = 2 powi 52 * 2 powi (binade x - 52)"
    by (simp add: ulp_def)
  also have "\<dots> = 2 powi (52 + (binade x - 52))"
    by (rule power_int_add [symmetric]) simp
  also have "52 + (binade x - 52) = binade x" by simp
  finally show ?thesis .
qed

lemma ulp_m53: "real_of_int (- (2 ^ 53)) * ulp x = - (2 powi (binade x + 1))"
  using ulp_53 [of x] by simp

lemma ulp_m52: "real_of_int (- (2 ^ 52)) * ulp x = - (2 powi (binade x))"
  using ulp_52 [of x] by simp

text \<open>Rounding stays inside the closed binade.\<close>

lemma nearest_le_of_le:
  assumes "x \<le> of_int k * ulp x"
  shows "nearest x \<le> of_int k * ulp x"
proof -
  have "x / ulp x \<le> of_int k" using assms by (simp add: pos_divide_le_eq)
  then have "round_even (x / ulp x) \<le> round_even (of_int k)" by (rule round_even_mono)
  then have "round_even (x / ulp x) \<le> k" by simp
  then have "real_of_int (round_even (x / ulp x)) \<le> real_of_int k" by (simp only: of_int_le_iff)
  then show ?thesis unfolding nearest_def by (rule mult_right_mono) simp
qed

lemma nearest_ge_of_ge:
  assumes "of_int k * ulp x \<le> x"
  shows "of_int k * ulp x \<le> nearest x"
proof -
  have "of_int k \<le> x / ulp x" using assms by (simp add: pos_le_divide_eq)
  then have "round_even (of_int k) \<le> round_even (x / ulp x)" by (rule round_even_mono)
  then have "k \<le> round_even (x / ulp x)" by simp
  then have "real_of_int k \<le> real_of_int (round_even (x / ulp x))" by (simp only: of_int_le_iff)
  then show ?thesis unfolding nearest_def by (rule mult_right_mono) simp
qed

lemma nearest_upper: "0 \<le> x \<Longrightarrow> nearest x \<le> 2 powi (binade x + 1)"
proof -
  assume "0 \<le> x"
  then have "x \<le> 2 powi (binade x + 1)" using binade_upper [of x] by simp
  then have "x \<le> real_of_int (2 ^ 53) * ulp x" by (simp only: ulp_53)
  then have "nearest x \<le> real_of_int (2 ^ 53) * ulp x" by (rule nearest_le_of_le)
  then show ?thesis by (simp only: ulp_53)
qed

lemma nearest_lower: "0 \<le> x \<Longrightarrow> - 1022 < binade x \<Longrightarrow> 2 powi (binade x) \<le> nearest x"
proof -
  assume "0 \<le> x" "- 1022 < binade x"
  then have "2 powi (binade x) \<le> x" using binade_bounds [of x] by simp
  then have "real_of_int (2 ^ 52) * ulp x \<le> x" by (simp only: ulp_52)
  then have "real_of_int (2 ^ 52) * ulp x \<le> nearest x" by (rule nearest_ge_of_ge)
  then show ?thesis by (simp only: ulp_52)
qed

lemma nearest_upper_neg: "x \<le> 0 \<Longrightarrow> - (2 powi (binade x + 1)) \<le> nearest x"
proof -
  assume "x \<le> 0"
  then have "- (2 powi (binade x + 1)) \<le> x" using binade_upper [of x] by simp
  then have "real_of_int (- (2 ^ 53)) * ulp x \<le> x" by (simp only: ulp_m53)
  then have "real_of_int (- (2 ^ 53)) * ulp x \<le> nearest x" by (rule nearest_ge_of_ge)
  then show ?thesis by (simp only: ulp_m53)
qed

lemma nearest_lower_neg: "x \<le> 0 \<Longrightarrow> - 1022 < binade x \<Longrightarrow> nearest x \<le> - (2 powi (binade x))"
proof -
  assume "x \<le> 0" "- 1022 < binade x"
  then have "x \<le> - (2 powi (binade x))" using binade_bounds [of x] by simp
  then have "x \<le> real_of_int (- (2 ^ 52)) * ulp x" by (simp only: ulp_m52)
  then have "nearest x \<le> real_of_int (- (2 ^ 52)) * ulp x" by (rule nearest_le_of_le)
  then show ?thesis by (simp only: ulp_m52)
qed

lemma nearest_same_binade:
  assumes "x \<le> y" and "binade x = binade y"
  shows "nearest x \<le> nearest y"
proof -
  have u: "ulp x = ulp y" using assms(2) by (simp add: ulp_def)
  have "x / ulp y \<le> y / ulp y" using assms(1) by (simp add: divide_right_mono)
  then have "round_even (x / ulp y) \<le> round_even (y / ulp y)" by (rule round_even_mono)
  then have "real_of_int (round_even (x / ulp y)) \<le> real_of_int (round_even (y / ulp y))"
    by (simp only: of_int_le_iff)
  then have "real_of_int (round_even (x / ulp y)) * ulp y
      \<le> real_of_int (round_even (y / ulp y)) * ulp y"
    by (intro mult_right_mono) simp_all
  then show ?thesis by (simp add: nearest_def u)
qed

lemma nearest_mono: "x \<le> y \<Longrightarrow> nearest x \<le> nearest y"
proof -
  assume xy: "x \<le> y"
  consider "x \<le> 0" "0 \<le> y" | "0 < x" | "y < 0" by linarith
  then show ?thesis
  proof cases
    case 1
    then show ?thesis using nearest_nonpos [of x] nearest_nonneg [of y] by linarith
  next
    case 2
    then have "\<bar>x\<bar> \<le> \<bar>y\<bar>" using xy by simp
    then have le: "binade x \<le> binade y" by (rule binade_mono)
    show ?thesis
    proof (cases "binade x = binade y")
      case True
      with xy show ?thesis by (rule nearest_same_binade)
    next
      case False
      then have lt: "binade x + 1 \<le> binade y" using le by simp
      then have "- 1022 < binade y" using binade_ge [of x] by linarith
      then have "2 powi (binade y) \<le> nearest y" using 2 xy by (intro nearest_lower) simp_all
      moreover have "nearest x \<le> 2 powi (binade x + 1)" using 2 by (intro nearest_upper) simp
      moreover have "(2::real) powi (binade x + 1) \<le> 2 powi (binade y)"
        using lt by (intro power_int_increasing) simp_all
      ultimately show ?thesis by linarith
    qed
  next
    case 3
    then have "\<bar>y\<bar> \<le> \<bar>x\<bar>" using xy by simp
    then have le: "binade y \<le> binade x" by (rule binade_mono)
    show ?thesis
    proof (cases "binade x = binade y")
      case True
      with xy show ?thesis by (rule nearest_same_binade)
    next
      case False
      then have lt: "binade y + 1 \<le> binade x" using le by simp
      then have "- 1022 < binade x" using binade_ge [of y] by linarith
      then have "nearest x \<le> - (2 powi (binade x))" using 3 xy by (intro nearest_lower_neg) simp_all
      moreover have "- (2 powi (binade y + 1)) \<le> nearest y" using 3 by (intro nearest_upper_neg) simp
      moreover have "(2::real) powi (binade y + 1) \<le> 2 powi (binade x)"
        using lt by (intro power_int_increasing) simp_all
      ultimately show ?thesis by linarith
    qed
  qed
qed

lemma fl_not_NaN [simp]: "fl x \<noteq> NaN"
  by (simp add: fl_def)

lemma fl_mono: "x \<le> y \<Longrightarrow> num_le (fl x) (fl y)"
proof -
  assume "x \<le> y"
  then have "nearest x \<le> nearest y" by (rule nearest_mono)
  then show ?thesis by (auto simp: fl_def)
qed

lemma fl_eval:
  assumes "- 1022 \<le> e" and "2 powi e \<le> \<bar>x\<bar>" and "\<bar>x\<bar> < 2 powi (e + 1)"
    and "of_int (round_even (x / 2 powi (e - 52))) * 2 powi (e - 52) = r"
    and "\<bar>r\<bar> < 2 ^ 1024"
  shows "fl x = Num r"
proof -
  have "binade x = e" using assms(1-3) by (rule binade_eq)
  then have "nearest x = r" using assms(4) by (simp add: nearest_def ulp_def)
  moreover have "\<not> 2 ^ 1024 \<le> r" "\<not> r \<le> - (2 ^ 1024)"
    using assms(5) by linarith+
  ultimately show ?thesis unfolding fl_def by (simp only: if_False)
qed

lemma fl_0 [simp]: "fl 0 = Num 0"
  by (simp add: fl_def nearest_def round_even_def)

lemma fl_1: "fl 1 = Num 1"
  by (rule fl_eval [where e = 0]) (simp_all add: round_even_def)

lemma fl_100: "fl 100 = Num 100"
  by (rule fl_eval [where e = 6]) (simp_all add: round_even_def)

lemma fl_7_100: "fl (7 / 100) = Num (1261007895663739 / 18014398509481984)"
  by (rule fl_eval [where e = "- 4"]) (simp_all add: round_even_def Let_def)

lemma num_le_NegInf: "c \<noteq> NaN \<Longrightarrow> num_le NegInf c"
  by (cases c) simp_all

lemma num_le_PosInf: "c \<noteq> NaN \<Longrightarrow> num_le c PosInf"
  by (cases c) simp_all

lemma num_le_not_NaN: "num_le a b \<Longrightarrow> a \<noteq> NaN \<and> b \<noteq> NaN"
  by (cases a; cases b) simp_all

lemma double_not_NaN: "v \<noteq> NaN \<Longrightarrow> double v \<noteq> NaN"
  by (cases v) (simp_all add: double_def)

lemma double_mono: "num_le a b \<Longrightarrow> num_le (double a) (double b)"
  by (cases a; cases b) (simp_all add: double_def fl_mono num_le_NegInf num_le_PosInf)

lemma num_div_mono:
  "0 < w \<Longrightarrow> num_le a b \<Longrightarrow> num_le (num_div a (Num w)) (num_div b (Num w))"
  by (cases a; cases b) (simp_all add: divide_right_mono)

lemma num_mul_mono: "num_le a b \<Longrightarrow> num_le (num_mul a (Num 100)) (num_mul b (Num 100))"
  by (cases a; cases b) (simp_all add: inf_of_sign_def)

lemma Math_min_mono: "num_le a b \<Longrightarrow> num_le (Math_min (Num c) a) (Math_min (Num c) b)"
  by (cases a; cases b) (auto simp: Math_min_def)

lemma Math_max_mono: "num_le a b \<Longrightarrow> num_le (Math_max (Num c) a) (Math_max (Num c) b)"
  by (cases a; cases b) (auto simp: Math_max_def)

lemma clamp_low: "num_le p (Num 0) \<Longrightarrow> Math_max (Num 0) (Math_min (Num 100) p) = Num 0"
  by (cases p) (auto simp: Math_max_def Math_min_def)

lemma clamp_high: "num_le (Num 100) p \<Longrightarrow> Math_max (Num 0) (Math_min (Num 100) p) = Num 100"
  by (cases p) (auto simp: Math_max_def Math_min_def)

lemma clamp_range:
  "p \<noteq> NaN \<Longrightarrow> num_le (Num 0) (Math_max (Num 0) (Math_min (Num 100) p))
     \<and> num_le (Math_max (Num 0) (Math_min (Num 100) p)) (Num 100)"
  by (cases p) (auto simp: Math_max_def Math_min_def)

text \<open>The percentage before the clamp, as a function of the rounded offset \<open>x\<close>.\<close>

lemma percent_mono:
  assumes "0 < w" and "num_le a b"
  shows "num_le (double (num_mul (double (num_div a (Num w))) (Num 100)))
                (double (num_mul (double (num_div b (Num w))) (Num 100)))"
  using assms by (intro double_mono num_mul_mono num_div_mono)

lemma fl_small_int:
  "fl 5 = Num 5" "fl 7 = Num 7" "fl 10 = Num 10" "fl 80 = Num 80" "fl 150 = Num 150"
  by (rule fl_eval [where e = 2], simp_all add: round_even_def)
     (rule fl_eval [where e = 2], simp_all add: round_even_def,
      rule fl_eval [where e = 3], simp_all add: round_even_def,
      rule fl_eval [where e = 6], simp_all add: round_even_def,
      rule fl_eval [where e = 7], simp_all add: round_even_def)

lemma fl_quotients:
  "fl (4 / 5) = Num (3602879701896397 / 4503599627370496)"
  "fl (1 / 10) = Num (3602879701896397 / 36028797018963968)"
  "fl (3 / 2) = Num (3 / 2)"
  by (rule fl_eval [where e = "- 1"], simp_all add: round_even_def Let_def)
     (rule fl_eval [where e = "- 4"], simp_all add: round_even_def Let_def,
      rule fl_eval [where e = 0], simp_all add: round_even_def Let_def)

lemma fl_products:
  "fl (3602879701896397 / 4503599627370496 * 100) = Num 80"
  "fl (3602879701896397 / 36028797018963968 * 100) = Num 10"
  "fl (1261007895663739 / 18014398509481984 * 100) = Num (7 + 1 / 2 ^ 50)"
  by (rule fl_eval [where e = 6], simp_all add: round_even_def Let_def)
     (rule fl_eval [where e = 3], simp_all add: round_even_def Let_def,
      rule fl_eval [where e = 2], simp_all add: round_even_def Let_def)

lemma dragPosition_double_eval:
  assumes "fl (clientX e - rect_left rect) = Num x" and "rect_width rect \<noteq> 0"
    and "fl (x / rect_width rect) = Num q" and "fl (q * 100) = Num p"
  shows "dragPosition_double rect e = Math_max (Num 0) (Math_min (Num 100) (Num p))"
  by (simp add: dragPosition_double_def double_def assms Let_def)

text \<open>On the inputs of the theorems about the handlers the doubles are the exact values;
  at 7 of 100 they are not.\<close>

lemma dragPosition_double_80:
  "dragPosition_double ex_slider (mouse_at 80 5) = Num 80"
proof -
  have "dragPosition_double ex_slider (mouse_at 80 5)
      = Math_max (Num 0) (Math_min (Num 100) (Num 80))"
  proof (rule dragPosition_double_eval)
    show "fl (clientX (mouse_at 80 5) - rect_left ex_slider) = Num 80"
      by (simp add: mouse_at_def ex_slider_def fl_small_int)
    show "rect_width ex_slider \<noteq> 0" by (simp add: ex_slider_def)
    show "fl (80 / rect_width ex_slider) = Num (3602879701896397 / 4503599627370496)"
      by (simp add: ex_slider_def fl_quotients)
    show "fl (3602879701896397 / 4503599627370496 * 100) = Num 80"
      by (rule fl_products)
  qed
  then show ?thesis by (simp add: Math_max_def Math_min_def)
qed

lemma dragPosition_double_10:
  "dragPosition_double ex_slider (mouse_at 10 5) = Num 10"
proof -
  have "dragPosition_double ex_slider (mouse_at 10 5)
      = Math_max (Num 0) (Math_min (Num 100) (Num 10))"
  proof (rule dragPosition_double_eval)
    show "fl (clientX (mouse_at 10 5) - rect_left ex_slider) = Num 10"
      by (simp add: mouse_at_def ex_slider_def fl_small_int)
    show "rect_width ex_slider \<noteq> 0" by (simp add: ex_slider_def)
    show "fl (10 / rect_width ex_slider) = Num (3602879701896397 / 36028797018963968)"
      by (simp add: ex_slider_def fl_quotients)
    show "fl (3602879701896397 / 36028797018963968 * 100) = Num 10"
      by (rule fl_products)
  qed
  then show ?thesis by (simp add: Math_max_def Math_min_def)
qed

lemma dragPosition_double_150:
  "dragPosition_double ex_slider (mouse_at 150 5) = Num 100"
proof -
  have "dragPosition_double ex_slider (mouse_at 150 5)
      = Math_max (Num 0) (Math_min (Num 100) (Num 150))"
  proof (rule dragPosition_double_eval)
    show "fl (clientX (mouse_at 150 5) - rect_left ex_slider) = Num 150"
      by (simp add: mouse_at_def ex_slider_def fl_small_int)
    show "rect_width ex_slider \<noteq> 0" by (simp add: ex_slider_def)
    show "fl (150 / rect_width ex_slider) = Num (3 / 2)"
      by (simp add: ex_slider_def fl_quotients)
    show "fl (3 / 2 * 100) = Num 150"
      by (simp add: fl_small_int)
  qed
  then show ?thesis by (simp add: Math_max_def Math_min_def)
qed

lemma dragPosition_double_7:
  "dragPosition_double ex_slider (mouse_at 7 5) = Num (7 + 1 / 2 ^ 50)
   \<and> dragPosition ex_slider (mouse_at 7 5) = Num 7"
proof -
  have "dragPosition_double ex_slider (mouse_at 7 5)
      = Math_max (Num 0) (Math_min (Num 100) (Num (7 + 1 / 2 ^ 50)))"
  proof (rule dragPosition_double_eval)
    show "fl (clientX (mouse_at 7 5) - rect_left ex_slider) = Num 7"
      by (simp add: mouse_at_def ex_slider_def fl_small_int)
    show "rect_width ex_slider \<noteq> 0" by (simp add: ex_slider_def)
    show "fl (7 / rect_width ex_slider) = Num (1261007895663739 / 18014398509481984)"
      by (simp add: ex_slider_def fl_7_100)
    show "fl (1261007895663739 / 18014398509481984 * 100) = Num (7 + 1 / 2 ^ 50)"
      by (rule fl_products)
  qed
  moreover have "dragPosition ex_slider (mouse_at 7 5) = Num 7"
    by (simp add: dragPosition_def ex_slider_def mouse_at_def Math_max_def Math_min_def)
  ultimately show ?thesis by (simp add: Math_max_def Math_min_def)
qed

lemma dragPosition_double_collapsed:
  "dragPosition_double ex_collapsed (mouse_at 5 0) = Num 100"
  "dragPosition_double ex_collapsed (mouse_at 0 0) = NaN"
  by (simp_all add: dragPosition_double_def double_def Let_def ex_collapsed_def mouse_at_def
      fl_small_int inf_of_sign_def Math_max_def Math_min_def)

section \<open>Pointer to position\<close>

lemma dragPosition_finite:
  "rect_width rect \<noteq> 0 \<Longrightarrow>
   dragPosition rect e =
     Num (max 0 (min 100 ((clientX e - rect_left rect) / rect_width rect * 100)))"
  by (simp add: dragPosition_def Math_max_def Math_min_def max_def min_def)

lemma dragPosition_zero_width:
  "rect_width rect = 0 \<Longrightarrow>
   dragPosition rect e =
     (if rect_left rect < clientX e then Num 100
      else if clientX e < rect_left rect then Num 0 else NaN)"
  by (simp add: dragPosition_def Math_max_def Math_min_def inf_of_sign_def)

text \<open>
  Claim C6. In double arithmetic, on a rectangle whose width is a positive double, the
  position a drag computes does not decrease when the pointer moves right, is 0 for every
  pointer at or left of the left edge, is 100 for every pointer at or right of the right
  edge (the left edge plus the width), and lies between 0 and 100 everywhere.
\<close>

theorem dragPosition_double_monotone_saturating:
  assumes "0 < rect_width rect" and "is_double (rect_width rect)"
  shows "(clientX e1 \<le> clientX e2 \<longrightarrow>
            num_le (dragPosition_double rect e1) (dragPosition_double rect e2))
    \<and> (clientX e \<le> rect_left rect \<longrightarrow> dragPosition_double rect e = Num 0)
    \<and> (rect_left rect + rect_width rect \<le> clientX e \<longrightarrow> dragPosition_double rect e = Num 100)
    \<and> num_le (Num 0) (dragPosition_double rect e)
    \<and> num_le (dragPosition_double rect e) (Num 100)"
proof -
  let ?w = "rect_width rect"
  let ?x = "\<lambda>e. fl (clientX e - rect_left rect)"
  let ?p = "\<lambda>e. double (num_mul (double (num_div (?x e) (Num ?w))) (Num 100))"
  have dp: "\<And>e. dragPosition_double rect e = Math_max (Num 0) (Math_min (Num 100) (?p e))"
    by (simp add: dragPosition_double_def double_def)
  have w: "fl ?w = Num ?w" using assms(2) by (simp add: is_double_def)
  have mono: "num_le (dragPosition_double rect e1) (dragPosition_double rect e2)"
    if "clientX e1 \<le> clientX e2"
  proof -
    have "num_le (?x e1) (?x e2)" using that by (intro fl_mono) simp
    then have "num_le (?p e1) (?p e2)" using assms(1) by (intro percent_mono)
    then show ?thesis unfolding dp by (intro Math_max_mono Math_min_mono)
  qed
  have low: "dragPosition_double rect e = Num 0" if "clientX e \<le> rect_left rect"
  proof -
    have "num_le (?x e) (fl 0)" using that by (intro fl_mono) simp
    then have "num_le (?x e) (Num 0)" by simp
    then have "num_le (?p e) (double (num_mul (double (num_div (Num 0) (Num ?w))) (Num 100)))"
      using assms(1) by (intro percent_mono)
    moreover have "double (num_mul (double (num_div (Num 0) (Num ?w))) (Num 100)) = Num 0"
      using assms(1) by (simp add: double_def)
    ultimately have "num_le (?p e) (Num 0)" by simp
    then show ?thesis unfolding dp by (rule clamp_low)
  qed
  have high: "dragPosition_double rect e = Num 100" if "rect_left rect + ?w \<le> clientX e"
  proof -
    have "num_le (fl ?w) (?x e)" using that by (intro fl_mono) simp
    then have "num_le (Num ?w) (?x e)" by (simp add: w)
    then have "num_le (double (num_mul (double (num_div (Num ?w) (Num ?w))) (Num 100))) (?p e)"
      using assms(1) by (intro percent_mono)
    moreover have "double (num_mul (double (num_div (Num ?w) (Num ?w))) (Num 100)) = Num 100"
      using assms(1) by (simp add: double_def fl_1 fl_100)
    ultimately have "num_le (Num 100) (?p e)" by simp
    then show ?thesis unfolding dp by (rule clamp_high)
  qed
  have "num_le (?x e) (?x e)" by (intro fl_mono) simp
  then have "num_le (?p e) (?p e)" using assms(1) by (intro percent_mono)
  then have "?p e \<noteq> NaN" using num_le_not_NaN by blast
  then have range: "num_le (Num 0) (dragPosition_double rect e)
      \<and> num_le (dragPosition_double rect e) (Num 100)"
    unfolding dp by (rule clamp_range)
  from mono low high range show ?thesis by blast
qed

theorem dragPosition_double_monotone_saturating_witness:
  "0 < rect_width ex_slider \<and> is_double (rect_width ex_slider)
   \<and> clientX (mouse_at 20 5) \<le> clientX (mouse_at 50 5)
   \<and> num_le (dragPosition_double ex_slider (mouse_at 20 5))
             (dragPosition_double ex_slider (mouse_at 50 5))
   \<and> clientX (mouse_at (- 3) 5) \<le> rect_left ex_slider
   \<and> dragPosition_double ex_slider (mouse_at (- 3) 5) = Num 0
   \<and> rect_left ex_slider + rect_width ex_slider \<le> clientX (mouse_at 250 5)
   \<and> dragPosition_double ex_slider (mouse_at 250 5) = Num 100"
proof -
  have h1: "0 < rect_width ex_slider" by (simp add: ex_slider_def)
  have h2: "is_double (rect_width ex_slider)" by (simp add: ex_slider_def is_double_def fl_100)
  have m: "clientX (mouse_at 20 5) \<le> clientX (mouse_at 50 5)" by (simp add: mouse_at_def)
  have l: "clientX (mouse_at (- 3) 5) \<le> rect_left ex_slider"
    by (simp add: mouse_at_def ex_slider_def)
  have r: "rect_left ex_slider + rect_width ex_slider \<le> clientX (mouse_at 250 5)"
    by (simp add: mouse_at_def ex_slider_def)
  show ?thesis
    using h1 h2 m l r
      dragPosition_double_monotone_saturating [OF h1 h2, of "mouse_at 20 5" "mouse_at 50 5" "mouse_at (- 3) 5"]
      dragPosition_double_monotone_saturating [OF h1 h2, of "mouse_at 20 5" "mouse_at 50 5" "mouse_at 250 5"]
    by blast
qed

text \<open>
  Claim C7, as stated, fails: a drag against a rectangle of width 0, with the pointer
  right of its left edge, neither leaves the state alone nor stores 0. It stores 100.
\<close>

theorem handleStopDrag_zero_width_counterexample:
  "rect_width ex_collapsed \<le> 0
   \<and> map position (colorStops initial) = [Num 0, Num 100]
   \<and> map position (colorStops (handleStopDrag (Some ex_collapsed) (mouse_at 5 0) ''1'' initial))
       = [Num 100, Num 100]
   \<and> handleStopDrag (Some ex_collapsed) (mouse_at 5 0) ''1'' initial \<noteq> initial"
proof -
  have p: "dragPosition ex_collapsed (mouse_at 5 0) = Num 100"
    by (simp add: dragPosition_zero_width ex_collapsed_def mouse_at_def)
  have 1: "map position (colorStops (handleStopDrag (Some ex_collapsed) (mouse_at 5 0) ''1'' initial))
       = [Num 100, Num 100]"
    by (simp add: handleStopDrag_def p initial_def)
  have 2: "map position (colorStops initial) = [Num 0, Num 100]"
    by (simp add: initial_def)
  have 3: "handleStopDrag (Some ex_collapsed) (mouse_at 5 0) ''1'' initial \<noteq> initial"
    using 1 2 by auto
  show ?thesis using 1 2 3 by (simp add: ex_collapsed_def)
qed

text \<open>
  Claim C7, amended. The drag has no case for a degenerate rectangle: it stores the clamp
  of the quotient. For a width of 0 or less and a pointer that is not on the left edge
  of a rectangle of width 0, what it stores is a finite number between 0 and 100, never
  an infinity: 100 for width 0 and a pointer right of the edge, 0 for width 0 and a
  pointer left of it, the clamped percentage for a negative width.
\<close>

theorem handleStopDrag_degenerate:
  assumes "rect_width rect \<le> 0"
    and "rect_width rect \<noteq> 0 \<or> clientX e \<noteq> rect_left rect"
  shows "dragPosition rect e =
           Num (if rect_width rect = 0 then (if rect_left rect < clientX e then 100 else 0)
                else max 0 (min 100 ((clientX e - rect_left rect) / rect_width rect * 100)))
    \<and> num_le (Num 0) (dragPosition rect e) \<and> num_le (dragPosition rect e) (Num 100)
    \<and> colorStops (handleStopDrag (Some rect) e stopId st) =
        map (\<lambda>stop. if stop_id stop = stopId
                     then stop\<lparr>position := dragPosition rect e\<rparr> else stop)
            (colorStops st)"
proof (cases "rect_width rect = 0")
  case True
  then have "clientX e \<noteq> rect_left rect" using assms(2) by simp
  then show ?thesis
    using True by (auto simp: dragPosition_zero_width handleStopDrag_def)
next
  case False
  then show ?thesis
    by (auto simp: dragPosition_finite handleStopDrag_def)
qed

theorem handleStopDrag_degenerate_witness:
  "rect_width ex_collapsed \<le> 0
   \<and> clientX (mouse_at 5 0) \<noteq> rect_left ex_collapsed
   \<and> dragPosition ex_collapsed (mouse_at 5 0) = Num 100
   \<and> num_le (Num 0) (dragPosition ex_collapsed (mouse_at 5 0))
   \<and> num_le (dragPosition ex_collapsed (mouse_at 5 0)) (Num 100)"
proof -
  have h1: "rect_width ex_collapsed \<le> 0" by (simp add: ex_collapsed_def)
  have h2: "clientX (mouse_at 5 0) \<noteq> rect_left ex_collapsed"
    by (simp add: ex_collapsed_def mouse_at_def)
  then have h2': "rect_width ex_collapsed \<noteq> 0 \<or> clientX (mouse_at 5 0) \<noteq> rect_left ex_collapsed"
    by simp
  have "dragPosition ex_collapsed (mouse_at 5 0) = Num 100"
    using handleStopDrag_degenerate [OF h1 h2']
    by (simp add: ex_collapsed_def mouse_at_def)
  then show ?thesis
    using h1 h2 handleStopDrag_degenerate [OF h1 h2'] by simp
qed

text \<open>
  Claim C9 has every stored position in \<open>[0, 100]\<close>. A click on the slider stores the
  percentage as computed, with no clamp: a pointer half a width right of the slider
  adds a stop at 150. And the clamp of the drag lets NaN through: with a rectangle of
  width 0 and the pointer on its left edge the dragged stop is stored at NaN.
\<close>

theorem stored_position_out_of_range:
  "map position (colorStops (handleSliderClick (Some ex_slider) (mouse_at 150 5) ''3'' initial))
     = [Num 0, Num 100, Num 150]
   \<and> \<not> num_le (Num 150) (Num 100)
   \<and> dragPosition ex_slider (mouse_at 150 5) = Num 100
   \<and> map position (colorStops (handleStopDrag (Some ex_collapsed) (mouse_at 0 0) ''1'' initial))
     = [NaN, Num 100]"
proof -
  have 1: "map position
      (colorStops (handleSliderClick (Some ex_slider) (mouse_at 150 5) ''3'' initial))
     = [Num 0, Num 100, Num 150]"
    by (simp add: handleSliderClick_def initial_def truthy_def ex_slider_def mouse_at_def)
  have 2: "dragPosition ex_slider (mouse_at 150 5) = Num 100"
    by (simp add: dragPosition_finite ex_slider_def mouse_at_def)
  have p: "dragPosition ex_collapsed (mouse_at 0 0) = NaN"
    by (simp add: dragPosition_zero_width ex_collapsed_def mouse_at_def)
  have 3: "map position
      (colorStops (handleStopDrag (Some ex_collapsed) (mouse_at 0 0) ''1'' initial))
     = [NaN, Num 100]"
    by (simp add: handleStopDrag_def p initial_def)
  show ?thesis using 1 2 3 by simp
qed

section \<open>The angle\<close>

lemma arctan_le_arg: "0 \<le> x \<Longrightarrow> arctan x \<le> x"
proof -
  assume x: "0 \<le> x"
  have "(\<lambda>t. t - arctan t) 0 \<le> (\<lambda>t. t - arctan t) x"
  proof (rule DERIV_nonneg_imp_nondecreasing [OF x])
    fix t :: real
    have "((\<lambda>t. t - arctan t) has_real_derivative (1 - inverse (1 + t\<^sup>2))) (at t)"
      by (auto intro!: derivative_eq_intros)
    moreover have "0 \<le> 1 - inverse (1 + t\<^sup>2)"
    proof -
      have "1 \<le> 1 + t\<^sup>2" by simp
      then have "inverse (1 + t\<^sup>2) \<le> 1" by (simp add: inverse_le_1_iff)
      then show ?thesis by simp
    qed
    ultimately show "\<exists>y. ((\<lambda>t. t - arctan t) has_real_derivative y) (at t) \<and> 0 \<le> y"
      by blast
  qed
  then show ?thesis by simp
qed

lemma js_rem_nonneg: 
  assumes "0 \<le> x"
  shows "js_rem x 360 = x - 360 * of_int \<lfloor>x / 360\<rfloor> \<and> 0 \<le> js_rem x 360 \<and> js_rem x 360 < 360"
proof -
  have e: "js_rem x 360 = x - 360 * of_int \<lfloor>x / 360\<rfloor>"
    using assms by (simp add: js_rem_def js_trunc_def)
  have "of_int \<lfloor>x / 360\<rfloor> \<le> x / 360" "x / 360 < of_int \<lfloor>x / 360\<rfloor> + 1"
    by linarith+
  then have "0 \<le> x - 360 * of_int \<lfloor>x / 360\<rfloor> \<and> x - 360 * of_int \<lfloor>x / 360\<rfloor> < 360"
    by linarith
  then show ?thesis using e by simp
qed

lemma js_rem_neg:
  assumes "x < 0"
  shows "js_rem x 360 = x - 360 * of_int \<lceil>x / 360\<rceil> \<and> - 360 < js_rem x 360 \<and> js_rem x 360 \<le> 0"
proof -
  have e: "js_rem x 360 = x - 360 * of_int \<lceil>x / 360\<rceil>"
    using assms by (simp add: js_rem_def js_trunc_def)
  have "x / 360 \<le> of_int \<lceil>x / 360\<rceil>" "of_int \<lceil>x / 360\<rceil> - 1 < x / 360"
    by linarith+
  then have "- 360 < x - 360 * of_int \<lceil>x / 360\<rceil> \<and> x - 360 * of_int \<lceil>x / 360\<rceil> \<le> 0"
    by linarith
  then show ?thesis using e by simp
qed

lemma normalizeAngle_floor: "normalizeAngle a = a - 360 * of_int \<lfloor>a / 360\<rfloor>"
proof -
  obtain k1 :: int where r: "js_rem a 360 = a - 360 * of_int k1" and lo: "- 360 < js_rem a 360"
    using js_rem_nonneg [of a] js_rem_neg [of a] by (cases "0 \<le> a") auto
  let ?r = "js_rem a 360 + 360"
  have "0 \<le> ?r" using lo by simp
  then have n: "js_rem ?r 360 = ?r - 360 * of_int \<lfloor>?r / 360\<rfloor>"
    and range: "0 \<le> js_rem ?r 360" "js_rem ?r 360 < 360"
    using js_rem_nonneg [of ?r] by simp_all
  define K where "K = k1 + \<lfloor>?r / 360\<rfloor> - 1"
  have eq: "normalizeAngle a = a - 360 * of_int K"
    unfolding normalizeAngle_def n K_def using r by (simp add: algebra_simps)
  have "0 \<le> a - 360 * of_int K" "a - 360 * of_int K < 360"
    using range eq by (simp_all add: normalizeAngle_def)
  then have "of_int K \<le> a / 360" "a / 360 < of_int K + 1"
    by linarith+
  then have "\<lfloor>a / 360\<rfloor> = K" by (rule floor_unique)
  then show ?thesis using eq by simp
qed

lemma normalizeAngle_range: "0 \<le> normalizeAngle a \<and> normalizeAngle a < 360"
proof -
  have "of_int \<lfloor>a / 360\<rfloor> \<le> a / 360" "a / 360 < of_int \<lfloor>a / 360\<rfloor> + 1"
    by linarith+
  then show ?thesis unfolding normalizeAngle_floor by linarith
qed

lemma normalizeAngle_periodic: "normalizeAngle (a + 360 * of_int k) = normalizeAngle a"
proof -
  have e: "(a + 360 * of_int k) / 360 = a / 360 + of_int k" by (simp add: field_simps)
  have "\<lfloor>(a + 360 * of_int k) / 360\<rfloor> = \<lfloor>a / 360\<rfloor> + k" unfolding e by simp
  then show ?thesis by (simp add: normalizeAngle_floor algebra_simps)
qed

lemma stored_angle_range:
  "0 \<le> Math_round (normalizeAngle a) \<and> Math_round (normalizeAngle a) \<le> 360"
proof -
  have "0 \<le> normalizeAngle a" "normalizeAngle a < 360" using normalizeAngle_range by simp_all
  then have "0 \<le> \<lfloor>normalizeAngle a + 1 / 2\<rfloor>" "\<lfloor>normalizeAngle a + 1 / 2\<rfloor> < 361"
    by (simp_all add: floor_less_iff)
  then show ?thesis by (simp add: Math_round_def)
qed

lemma handleAngleWheel_negative:
  "angle (handleAngleWheel (Some ex_wheel) (mouse_at 0 0) initial) = - 45"
proof -
  have "pointerAngle ex_wheel (mouse_at 0 0) = (arctan 1 - pi) * (180 / pi) + 90"
    by (simp add: pointerAngle_def ex_wheel_def mouse_at_def Math_atan2_def)
  also have "\<dots> = - 45" by (simp add: arctan_one field_simps)
  finally have "pointerAngle ex_wheel (mouse_at 0 0) = - 45" .
  then show ?thesis by (simp add: handleAngleWheel_def Math_round_def)
qed

lemma pointerAngle_near_top:
  "pointerAngle ex_wheel (mouse_at 99 (- 900)) = - (arctan (1 / 1000) * (180 / pi))"
proof -
  have "arctan (1 / 1000) = sgn (1000::real) * pi / 2 - arctan 1000"
    by (rule arctan_inverse) simp
  then have a: "arctan 1000 = pi / 2 - arctan (1 / 1000)" by simp
  have "pointerAngle ex_wheel (mouse_at 99 (- 900)) = (arctan 1000 - pi) * (180 / pi) + 90"
    by (simp add: pointerAngle_def ex_wheel_def mouse_at_def Math_atan2_def)
  also have "\<dots> = - (arctan (1 / 1000) * (180 / pi))"
    unfolding a by (simp add: field_simps)
  finally show ?thesis .
qed

lemma pointerAngle_near_top_bounds:
  "- (1 / 2) < pointerAngle ex_wheel (mouse_at 99 (- 900))
   \<and> pointerAngle ex_wheel (mouse_at 99 (- 900)) < 0"
proof -
  let ?t = "arctan (1 / 1000) * (180 / pi)"
  have "0 < arctan (1 / 1000 :: real)" by simp
  then have pos: "0 < ?t" by simp
  have "arctan (1 / 1000) \<le> (1 / 1000 :: real)" by (rule arctan_le_arg) simp
  then have "?t \<le> (1 / 1000) * (180 / pi)"
    by (intro mult_right_mono) simp_all
  also have "\<dots> < 1 / 2" using pi_ge_two by (simp add: field_simps)
  finally have "?t < 1 / 2" .
  with pos show ?thesis by (simp add: pointerAngle_near_top)
qed

lemma round_normalize_edge:
  assumes "- (1 / 2) \<le> a" and "a < 0"
  shows "normalizeAngle a = a + 360 \<and> Math_round (normalizeAngle a) = 360"
proof -
  have "- 1 < a / 360" "a / 360 < 0" using assms by simp_all
  then have "\<lfloor>a / 360\<rfloor> = - 1" by (simp add: floor_eq_iff)
  then have n: "normalizeAngle a = a + 360" by (simp add: normalizeAngle_floor)
  then show ?thesis using assms by (simp add: Math_round_def floor_eq_iff)
qed

lemma fl_angle_bounds:
  "fl (719 / 2) = Num (719 / 2)"
  "fl (360 - 1 / 2 ^ 44) = Num (360 - 1 / 2 ^ 44)"
  "fl (- (1 / 2 ^ 46) + 360) = Num 360"
  by (rule fl_eval [where e = 8], simp_all add: round_even_def Let_def)
     (rule fl_eval [where e = 8], simp_all add: round_even_def Let_def,
      rule fl_eval [where e = 8], simp_all add: round_even_def Let_def)

lemma js_rem_id_neg: "- 360 < a \<Longrightarrow> a \<le> 0 \<Longrightarrow> js_rem a 360 = a"
proof -
  assume a: "- 360 < a" "a \<le> 0"
  then have "- 1 < a / 360" "a / 360 \<le> 0" by simp_all
  then have c: "\<lceil>a / 360\<rceil> = 0" by (simp add: ceiling_eq_iff)
  show ?thesis
  proof (cases "a < 0")
    case True
    then show ?thesis using js_rem_neg [of a] c by simp
  next
    case False
    then have "a = 0" using a by simp
    then show ?thesis by (simp add: js_rem_def js_trunc_def)
  qed
qed

lemma js_rem_id_nonneg: "0 \<le> s \<Longrightarrow> s < 360 \<Longrightarrow> js_rem s 360 = s"
proof -
  assume s: "0 \<le> s" "s < 360"
  then have "0 \<le> s / 360" "s / 360 < 1" by simp_all
  then have "\<lfloor>s / 360\<rfloor> = 0" by (simp add: floor_eq_iff)
  then show ?thesis using js_rem_nonneg [of s] s by simp
qed

text \<open>In doubles the window of raw angles that are stored as 360 ends \<open>2\<^sup>-\<^sup>4\<^sup>4\<close> below
  0: nearer to 0 the sum with 360 already rounds to 360, and 0 is stored.\<close>

lemma normalizeAngle_double_edge:
  assumes "- (1 / 2) \<le> a" and "a \<le> - (1 / 2 ^ 44)"
  shows "\<exists>s. normalizeAngle_double a = Num s \<and> Math_round s = 360"
proof -
  have r: "js_rem a 360 = a" using assms by (intro js_rem_id_neg) simp_all
  have "num_le (fl (719 / 2)) (fl (a + 360))" using assms(1) by (intro fl_mono) simp
  then have lo: "num_le (Num (719 / 2)) (fl (a + 360))" by (simp only: fl_angle_bounds)
  have "num_le (fl (a + 360)) (fl (360 - 1 / 2 ^ 44))" using assms(2) by (intro fl_mono) simp
  then have hi: "num_le (fl (a + 360)) (Num (360 - 1 / 2 ^ 44))" by (simp only: fl_angle_bounds)
  obtain s where s: "fl (a + 360) = Num s" "719 / 2 \<le> s" "s \<le> 360 - 1 / 2 ^ 44"
    using lo hi by (cases "fl (a + 360)") simp_all
  have "s < 360" using s(3) by simp
  then have "js_rem s 360 = s" using s(2) by (intro js_rem_id_nonneg) simp_all
  then have "normalizeAngle_double a = Num s"
    by (simp add: normalizeAngle_double_def r s(1))
  moreover have "Math_round s = 360"
    using s(2) \<open>s < 360\<close> by (simp add: Math_round_def floor_eq_iff)
  ultimately show ?thesis by blast
qed

lemma normalizeAngle_double_tiny:
  "normalizeAngle_double (- (1 / 2 ^ 46)) = Num 0
   \<and> Math_round (normalizeAngle (- (1 / 2 ^ 46))) = 360"
proof -
  have "js_rem (- (1 / 2 ^ 46)) 360 = - (1 / 2 ^ 46)" by (intro js_rem_id_neg) simp_all
  then have "normalizeAngle_double (- (1 / 2 ^ 46)) = Num (js_rem 360 360)"
    by (simp only: normalizeAngle_double_def fl_angle_bounds number.case)
  moreover have "js_rem 360 360 = 0" by (simp add: js_rem_def js_trunc_def)
  moreover have "Math_round (normalizeAngle (- (1 / 2 ^ 46))) = 360"
    using round_normalize_edge [of "- (1 / 2 ^ 46)"] by simp
  ultimately show ?thesis by simp
qed

text \<open>
  Claim C5 has the stored angle in \<open>[0, 360)\<close>. The normalisation does land there
  (\<open>normalizeAngle_range\<close>) and does not tell \<open>a\<close> from \<open>a + 360 k\<close>
  (\<open>normalizeAngle_periodic\<close>), but the handler rounds after it: a normalised angle of
  359.5 or more is stored as 360. A pointer just left of the vertical through the centre
  of the wheel does it, as does the angle \<open>-0.4\<close>.
\<close>

theorem handleAngleChange_stores_360:
  "angle (handleAngleChange (Some ex_wheel) (mouse_at 99 (- 900)) initial) = 360
   \<and> Math_round (normalizeAngle (- (2 / 5))) = 360"
proof -
  have "- (1 / 2) \<le> pointerAngle ex_wheel (mouse_at 99 (- 900))"
    and "pointerAngle ex_wheel (mouse_at 99 (- 900)) < 0"
    using pointerAngle_near_top_bounds by simp_all
  then have "Math_round (normalizeAngle (pointerAngle ex_wheel (mouse_at 99 (- 900)))) = 360"
    using round_normalize_edge by blast
  moreover have "Math_round (normalizeAngle (- (2 / 5))) = 360"
  proof -
    have "- (1 / 2) \<le> (- (2 / 5) :: real)" and "(- (2 / 5) :: real) < 0" by simp_all
    then show ?thesis using round_normalize_edge by blast
  qed
  ultimately show ?thesis by (simp add: handleAngleChange_def)
qed

end
